theory Spec2Isabelle
  imports Main "HOL-Library.AList"
begin

section \<open>JavaScript values used by the sources\<close>

text \<open>
  An optional string (\<open>string | undefined | null\<close>) is a \<open>string option\<close>.  A JavaScript
  condition on such a value tests truthiness: \<open>undefined\<close>, \<open>null\<close> and the empty string
  are falsy, every other string is truthy.
\<close>

fun truthy :: "string option \<Rightarrow> bool" where
  "truthy None = False"
| "truthy (Some s) = (s \<noteq> [])"

text \<open>\<open>a || b\<close> on strings: the left operand when it is truthy, the right one otherwise.\<close>

fun orElse :: "string option \<Rightarrow> string \<Rightarrow> string" where
  "orElse None d = d"
| "orElse (Some s) d = (if s = [] then d else s)"

definition endsWith :: "string \<Rightarrow> string \<Rightarrow> bool" where
  "endsWith s suffix = (length suffix \<le> length s \<and> drop (length s - length suffix) s = suffix)"

text \<open>\<open>String.prototype.toLowerCase\<close>, on the ASCII letters (a \<open>char\<close> is a byte).\<close>

definition lowerChar :: "char \<Rightarrow> char" where
  "lowerChar c =
     (let n = of_char c :: nat in if 65 \<le> n \<and> n \<le> 90 then char_of (n + 32) else c)"

definition toLowerCase :: "string \<Rightarrow> string" where
  "toLowerCase s = map lowerChar s"

section \<open>Variable completion (server/src/features/completion/variable-completion.ts)\<close>

text \<open>The fields of the sassdoc parse result that the completion code reads.\<close>

record SassDoc =
  deprecated :: "string option"

text \<open>
  \<open>ScssVariable\<close>: the declared name (with its \<open>$\<close>), the raw value, the name of the
  owning mixin when the variable is a mixin argument, and the parsed doc comment.
\<close>

record ScssVariable =
  v_name :: string
  v_value :: "string option"
  v_mixin :: "string option"
  v_sassdoc :: "SassDoc option"

text \<open>
  \<open>IScssDocument\<close>: \<open>variables\<close> is a \<open>Map\<close>; the code only iterates over
  \<open>variables.values()\<close>, so the model keeps the values in insertion order.
\<close>

record ScssDocument =
  d_uri :: string
  d_fileName :: string
  d_variables :: "ScssVariable list"

text \<open>The two fields of \<open>TextDocument\<close> that the sources read.\<close>

record TextDocument =
  t_uri :: string
  t_version :: int

record CompletionContext =
  c_word :: string
  c_namespace :: "string option"
  c_originalExtension :: string

datatype CompletionItemKind = Color | Variable

datatype CompletionItemTag = Deprecated

text \<open>\<open>documentation\<close> is a plain string for a colour and Markdown markup otherwise.\<close>

datatype Documentation = PlainString string | Markdown string

record CompletionItem =
  label :: string
  filterText :: "string option"
  insertText :: "string option"
  sortText :: "string option"
  commitCharacters :: "string list"
  kind :: CompletionItemKind
  detail :: string
  tags :: "CompletionItemTag list"
  documentation :: Documentation

text \<open>
  The functions and the constant that \<open>variable-completion.ts\<close> imports from modules
  that are not part of the verified sources.  They are parameters of the model:
  \<open>rePrivate\<close> is the regular expression of the privacy convention, given as the
  predicate "the name matches"; \<open>isColor\<close> returns a colour or \<open>null\<close>; \<open>applySassDoc\<close>
  returns the rendered doc comment (the call's display options are constant).
\<close>

record Imports =
  isReferencingVariable :: "ScssVariable \<Rightarrow> bool"
  getBaseValueFrom :: "ScssVariable \<Rightarrow> ScssDocument \<Rightarrow> ScssVariable"
  isColor :: "string \<Rightarrow> string option"
  getLimitedString :: "string \<Rightarrow> string"
  applySassDoc :: "ScssVariable \<Rightarrow> string"
  asDollarlessVariable :: "string \<Rightarrow> string"
  rePrivate :: "string \<Rightarrow> bool"

text \<open>
  The body of the \<open>for\<close> loop for one variable; \<open>None\<close> is \<open>continue\<close>, \<open>Some item\<close> is
  the item pushed onto \<open>completions\<close>.

  \<open>label.replace(/^$[_-]/, "")\<close> leaves the label as it is: the \<open>$\<close> of the pattern is
  not escaped, so it is the end-of-input anchor, and no character can follow the end of
  the input.  Hence \<open>sortText\<close> of a private variable is the label itself.
\<close>

definition completionItemFor ::
  "Imports \<Rightarrow> ScssDocument \<Rightarrow> TextDocument \<Rightarrow> CompletionContext \<Rightarrow> string list \<Rightarrow> string
    \<Rightarrow> ScssVariable \<Rightarrow> CompletionItem option" where
  "completionItemFor I scssDocument currentDocument context hiddenSymbols prefix variable =
    (let val =
           (if isReferencingVariable I variable
            then v_value (getBaseValueFrom I variable scssDocument)
            else v_value variable);
         color = (case val of None \<Rightarrow> None | Some s \<Rightarrow> if s = [] then None else isColor I s);
         completionKind = (if truthy color then Color else Variable);
         documentation0 = getLimitedString I (orElse color (orElse val []));
         detail0 = ''Variable declared in '' @ d_fileName scssDocument;
         label0 = v_name variable;
         isPrivate = rePrivate I (v_name variable);
         isFromCurrentDocument = (d_uri scssDocument = t_uri currentDocument);
         sassdoc = applySassDoc I variable;
         branch =
           (if truthy (v_mixin variable)
            then Some (''Argument from '' @ orElse (v_mixin variable) [] @ '', ''
                         @ toLowerCase detail0,
                       None, documentation0)
            else if isPrivate \<and> \<not> isFromCurrentDocument then None
            else if v_name variable \<in> set hiddenSymbols then None
            else Some (detail0,
                       if isPrivate then Some label0 else None,
                       if sassdoc \<noteq> [] then documentation0 @ [CHR 0x0A, CHR 0x0A] @ sassdoc
                       else documentation0));
         isEmbedded = (c_originalExtension context \<noteq> ''scss'');
         dot = endsWith (c_word context) ''.''
     in
       case branch of
         None \<Rightarrow> None
       | Some (detail1, sortText1, documentation1) \<Rightarrow>
           let label1 =
                 (if truthy (c_namespace context)
                  then ''$'' @ prefix @ asDollarlessVariable I (v_name variable)
                  else label0);
               insertText1 =
                 (if truthy (c_namespace context)
                  then Some (if dot then (if isEmbedded then [] else ''.'') @ label1
                             else if isEmbedded then asDollarlessVariable I label1
                             else label1)
                  else if isEmbedded then Some (asDollarlessVariable I label0)
                  else None);
               filterText1 =
                 (if truthy (c_namespace context)
                  then Some (if dot then orElse (c_namespace context) [] @ ''.'' @ label1
                             else label1)
                  else None)
           in Some \<lparr> label = label1,
                     filterText = filterText1,
                     insertText = insertText1,
                     sortText = sortText1,
                     commitCharacters = ['';'', '',''],
                     kind = completionKind,
                     detail = detail1,
                     tags = (case v_sassdoc variable of
                               None \<Rightarrow> []
                             | Some d \<Rightarrow> if truthy (deprecated d) then [Deprecated] else []),
                     documentation =
                       (if completionKind = Color then PlainString documentation1
                        else Markdown documentation1) \<rparr>)"

text \<open>
  \<open>createVariableCompletionItems\<close>: the loop over \<open>scssDocument.variables.values()\<close>,
  collecting the items in iteration order.  The defaults of the last two parameters
  (\<open>hiddenSymbols = []\<close>, \<open>prefix = ""\<close>) are passed explicitly.
\<close>

definition createVariableCompletionItems ::
  "Imports \<Rightarrow> ScssDocument \<Rightarrow> TextDocument \<Rightarrow> CompletionContext \<Rightarrow> string list \<Rightarrow> string
    \<Rightarrow> CompletionItem list" where
  "createVariableCompletionItems I scssDocument currentDocument context hiddenSymbols prefix =
     List.map_filter
       (completionItemFor I scssDocument currentDocument context hiddenSymbols prefix)
       (d_variables scssDocument)"

text \<open>
  An instance of the imported functions, for evaluating the model on concrete inputs:
  no variable references another, nothing is a colour, strings are not shortened, there
  are no doc comments, \<open>asDollarlessVariable\<close> drops a leading \<open>$\<close>, and a name is
  private when it starts with \<open>$_\<close> or \<open>$-\<close>.
\<close>

definition dropDollar :: "string \<Rightarrow> string" where
  "dropDollar s = (case s of [] \<Rightarrow> [] | c # cs \<Rightarrow> if c = CHR ''$'' then cs else s)"

definition startsPrivate :: "string \<Rightarrow> bool" where
  "startsPrivate s =
     (case s of
        c # d # _ \<Rightarrow> c = CHR ''$'' \<and> (d = CHR ''_'' \<or> d = CHR ''-'')
      | _ \<Rightarrow> False)"

definition exampleImports :: Imports where
  "exampleImports =
     \<lparr> isReferencingVariable = (\<lambda>v. False),
       getBaseValueFrom = (\<lambda>v d. v),
       isColor = (\<lambda>s. None),
       getLimitedString = (\<lambda>s. s),
       applySassDoc = (\<lambda>v. []),
       asDollarlessVariable = dropDollar,
       rePrivate = startsPrivate \<rparr>"

definition exampleVariable :: "string \<Rightarrow> string option \<Rightarrow> ScssVariable" where
  "exampleVariable n m = \<lparr> v_name = n, v_value = Some ''1px'', v_mixin = m, v_sassdoc = None \<rparr>"

definition exampleDocument :: "string \<Rightarrow> ScssVariable list \<Rightarrow> ScssDocument" where
  "exampleDocument u vs = \<lparr> d_uri = u, d_fileName = u, d_variables = vs \<rparr>"

definition exampleContext :: "string option \<Rightarrow> CompletionContext" where
  "exampleContext ns = \<lparr> c_word = ''$'', c_namespace = ns, c_originalExtension = ''scss'' \<rparr>"

section \<open>The language server (server.ts)\<close>

text \<open>
  The settings the handlers read.  The other fields of \<open>ISettings\<close> are not used by the
  modelled code.
\<close>

record ISettings =
  showErrors :: bool
  scanImportedFiles :: bool


text \<open>
  The state that \<open>onDidChangeContent\<close> reads and writes: the text document manager
  \<open>documents\<close> (the latest document of every open URI), the storage service written by
  \<open>scannerService.update\<close>, the calls of \<open>connection.sendDiagnostics\<close> so far (oldest
  first) and the messages given to \<open>console.error\<close>.  A sent entry keeps
  \<open>latestTextDocument\<close> itself, whose \<open>uri\<close> is the one of the payload, so that the
  version it was published for can be read off.  The type \<open>'r\<close> is the type of the
  records in the storage.
\<close>

type_synonym Diagnostics = "string list"

record 'r ServerState =
  documents :: "(string \<times> TextDocument) list"
  storage :: "(string \<times> 'r) list"
  sent :: "(TextDocument \<times> Diagnostics) list"
  logged :: "string list"

text \<open>
  The handler of \<open>onDidChangeContent\<close> is asynchronous: it is suspended at
  \<open>await scannerService.update(...)\<close> and at \<open>await doDiagnostics(...)\<close>, and other events
  run in between.  The events of the model are the points where the state is touched:

  \<^item> \<open>DidChange d\<close>: the document manager has made \<open>d\<close> the latest document of its URI
    and fires the handler with \<open>change.document = d\<close>;
  \<^item> \<open>UpdateDone d r\<close>: the update of the handler for \<open>d\<close> is over; it has thrown
    (\<open>Inl message\<close>: the handler logs the message and returns) or it has stored the new
    record of the document (\<open>Inr record\<close>);
  \<^item> \<open>DiagnosticsDone d g\<close>: \<open>doDiagnostics\<close> of the handler for \<open>d\<close> has returned \<open>g\<close>,
    and the rest of the handler runs: it looks the latest document up and sends \<open>g\<close> when
    there is one with the version of \<open>d\<close>;
  \<^item> \<open>DidClose uri\<close>: the document manager forgets the document.
\<close>

datatype 'r Event =
    DidChange TextDocument
  | UpdateDone TextDocument "string + 'r"
  | DiagnosticsDone TextDocument Diagnostics
  | DidClose string

fun step :: "'r ServerState \<Rightarrow> 'r Event \<Rightarrow> 'r ServerState" where
  "step s (DidChange d) = s\<lparr> documents := AList.update (t_uri d) d (documents s) \<rparr>"
| "step s (UpdateDone d (Inl message)) = s\<lparr> logged := logged s @ [message] \<rparr>"
| "step s (UpdateDone d (Inr record)) =
     s\<lparr> storage := AList.update (t_uri d) record (storage s) \<rparr>"
| "step s (DiagnosticsDone d diagnostics) =
     (case map_of (documents s) (t_uri d) of
        None \<Rightarrow> s
      | Some latestTextDocument \<Rightarrow>
          if t_version latestTextDocument = t_version d
          then s\<lparr> sent := sent s @ [(latestTextDocument, diagnostics)] \<rparr>
          else s)"
| "step s (DidClose uri) = s\<lparr> documents := AList.delete uri (documents s) \<rparr>"



text \<open>
  The protocol's promise about versions: the versions of the documents that the manager
  receives for one URI increase.  \<open>seen\<close> is the latest version received for each URI.
\<close>

fun versionsIncrease :: "(string \<Rightarrow> int option) \<Rightarrow> 'r Event list \<Rightarrow> bool" where
  "versionsIncrease seen [] = True"
| "versionsIncrease seen (DidChange d # events) =
     ((case seen (t_uri d) of None \<Rightarrow> True | Some v \<Rightarrow> v < t_version d) \<and>
      versionsIncrease (seen(t_uri d \<mapsto> t_version d)) events)"
| "versionsIncrease seen (e # events) = versionsIncrease seen events"



section \<open>The module graph builder, from the specification\<close>

text \<open>
  The parser, the path resolution, the storage and the scanner of the repository are not
  among the verified sources: only their tests and their callers are.  The definitions of
  this section and the next follow the specification's description of them.  A URI of the
  model is a canonical URI, written as a path with \<open>/\<close> between its segments.
\<close>

subsection \<open>Text\<close>

definition isSpace :: "char \<Rightarrow> bool" where
  "isSpace c = (c = CHR '' '' \<or> c = CHR 0x09 \<or> c = CHR 0x0A \<or> c = CHR 0x0D)"

definition trimLeft :: "string \<Rightarrow> string" where
  "trimLeft s = dropWhile isSpace s"

definition trimRight :: "string \<Rightarrow> string" where
  "trimRight s = rev (dropWhile isSpace (rev s))"

definition trim :: "string \<Rightarrow> string" where
  "trim s = trimRight (trimLeft s)"

definition startsWith :: "string \<Rightarrow> string \<Rightarrow> bool" where
  "startsWith s p = (take (length p) s = p)"

text \<open>The pieces of a string between the occurrences of a separator.\<close>

fun splitOn :: "char \<Rightarrow> string \<Rightarrow> string list" where
  "splitOn sep [] = [[]]"
| "splitOn sep (c # cs) =
     (if c = sep then [] # splitOn sep cs
      else (case splitOn sep cs of
              [] \<Rightarrow> [[c]]
            | piece # pieces \<Rightarrow> (c # piece) # pieces))"

fun joinPath :: "string list \<Rightarrow> string" where
  "joinPath [] = []"
| "joinPath [s] = s"
| "joinPath (s # ss) = s @ ''/'' @ joinPath ss"

definition isQuote :: "char \<Rightarrow> bool" where
  "isQuote c = (c = CHR 0x22 \<or> c = CHR 0x27)"

subsection \<open>Path Resolver\<close>

text \<open>
  Modelled from the spec: the Path Resolver (section 4.1), which is missing from the
  sources.  \<open>resolve(fromURI, rawReference)\<close>: strip the quotes and a leading \<open>~\<close>,
  normalise the relative segments against the directory of the referencing file; a
  reference with a stylesheet extension is tested as it is, any other is probed as
  \<open>name.scss\<close>, \<open>name.sass\<close>, the partial form with each extension, and the directory
  index forms \<open>name/_index\<close>, \<open>name/index\<close> with each extension.  The first candidate
  that exists is the result.  \<open>exists\<close> is the file system's existence test.
\<close>

definition stripQuotes :: "string \<Rightarrow> string" where
  "stripQuotes s = rev (dropWhile isQuote (rev (dropWhile isQuote s)))"

definition stripModuleMarker :: "string \<Rightarrow> string" where
  "stripModuleMarker s = (if startsWith s ''~'' then drop 1 s else s)"

fun applySegments :: "string list \<Rightarrow> string list \<Rightarrow> string list" where
  "applySegments dir [] = dir"
| "applySegments dir (s # ss) =
     (if s = ''.'' \<or> s = [] then applySegments dir ss
      else if s = ''..'' then applySegments (butlast dir) ss
      else applySegments (dir @ [s]) ss)"

definition hasStylesheetExtension :: "string \<Rightarrow> bool" where
  "hasStylesheetExtension p = (endsWith p ''.scss'' \<or> endsWith p ''.sass'')"

definition candidates :: "string list \<Rightarrow> string list" where
  "candidates segments =
     (case rev segments of
        [] \<Rightarrow> []
      | final # parents \<Rightarrow>
          (let name = joinPath segments;
               partial = joinPath (rev parents @ [''_'' @ final])
           in [name @ ''.scss'', name @ ''.sass'',
               partial @ ''.scss'', partial @ ''.sass'',
               name @ ''/_index.scss'', name @ ''/_index.sass'',
               name @ ''/index.scss'', name @ ''/index.sass'']))"

definition resolve :: "(string \<Rightarrow> bool) \<Rightarrow> string \<Rightarrow> string \<Rightarrow> string option" where
  "resolve exists fromURI rawReference =
     (let reference = stripModuleMarker (stripQuotes rawReference);
          segments = applySegments (butlast (splitOn CHR ''/'' fromURI))
                       (splitOn CHR ''/'' reference)
      in if hasStylesheetExtension reference
         then (if segments \<noteq> [] \<and> exists (joinPath segments)
               then Some (joinPath segments) else None)
         else find exists (candidates segments))"

subsection \<open>Data model\<close>

text \<open>
  Modelled from the spec: the Document Record and its symbols and links (section 3).
  Doc comments are not extracted by the model; the field is always empty.
\<close>

record Parameter =
  p_name :: string
  p_value :: "string option"

record VariableSymbol =
  vs_name :: string
  vs_value :: string
  vs_position :: nat
  vs_owner :: "string option"
  vs_doc :: "string option"
  vs_private :: bool

record CallableSymbol =
  cs_name :: string
  cs_parameters :: "Parameter list"
  cs_position :: nat
  cs_doc :: "string option"

record UseLink =
  u_raw :: string
  u_target :: "string option"
  u_namespace :: string
  u_aliased :: bool

record ForwardLink =
  f_raw :: string
  f_target :: "string option"
  f_prefix :: "string option"
  f_hide :: "string list"

record ImportLink =
  i_raw :: string
  i_target :: "string option"

text \<open>
  The maps of a record are association lists in insertion order.  \<open>uses\<close> and
  \<open>forwards\<close> are keyed by the resolved target, and by the raw reference while the link
  is unresolved; \<open>imports\<close> is an ordered list.
\<close>

record DocumentRecord =
  r_content :: string
  r_variables :: "(string \<times> VariableSymbol) list"
  r_mixins :: "(string \<times> CallableSymbol) list"
  r_functions :: "(string \<times> CallableSymbol) list"
  r_imports :: "ImportLink list"
  r_uses :: "(string \<times> UseLink) list"
  r_forwards :: "(string \<times> ForwardLink) list"

definition emptyRecord :: "string \<Rightarrow> DocumentRecord" where
  "emptyRecord text =
     \<lparr> r_content = text, r_variables = [], r_mixins = [], r_functions = [],
       r_imports = [], r_uses = [], r_forwards = [] \<rparr>"

text \<open>The resolved targets of all links of a record.\<close>

definition linkTargets :: "DocumentRecord \<Rightarrow> string list" where
  "linkTargets r =
     List.map_filter (\<lambda>(k, l). u_target l) (r_uses r) @
     List.map_filter (\<lambda>(k, l). f_target l) (r_forwards r) @
     List.map_filter i_target (r_imports r)"

subsection \<open>Link and Symbol Extractor\<close>

text \<open>
  Modelled from the spec: the parameter list of a mixin or function declaration
  (section 4.2).  The list is split at the commas that are outside every bracket and
  every quoted string; \<open>nextDepth\<close> is the scanner's state after a character: the bracket
  depth and the quote that is open.
\<close>

definition isOpen :: "char \<Rightarrow> bool" where
  "isOpen c = (c = CHR ''('' \<or> c = CHR ''['' \<or> c = CHR ''{'')"

definition isClose :: "char \<Rightarrow> bool" where
  "isClose c = (c = CHR '')'' \<or> c = CHR '']'' \<or> c = CHR ''}'')"

definition nextDepth :: "nat \<times> char option \<Rightarrow> char \<Rightarrow> nat \<times> char option" where
  "nextDepth st c =
     (case st of
        (depth, Some q) \<Rightarrow> if c = q then (depth, None) else (depth, Some q)
      | (depth, None) \<Rightarrow>
          if isQuote c then (depth, Some c)
          else if isOpen c then (Suc depth, None)
          else if isClose c then (depth - 1, None)
          else (depth, None))"

fun splitParameters :: "nat \<times> char option \<Rightarrow> string \<Rightarrow> string \<Rightarrow> string list" where
  "splitParameters st current [] = [current]"
| "splitParameters st current (c # cs) =
     (if c = CHR '','' \<and> st = (0, None) then current # splitParameters (0, None) [] cs
      else splitParameters (nextDepth st c) (current @ [c]) cs)"

text \<open>
  One parameter: the name before the first colon, the default after it.  A parameter
  with no default expression has the value \<open>None\<close> (null), never the empty string.
\<close>

definition parseParameter :: "string \<Rightarrow> Parameter" where
  "parseParameter text =
     (let name = takeWhile (\<lambda>c. c \<noteq> CHR '':'') text;
          rest = dropWhile (\<lambda>c. c \<noteq> CHR '':'') text;
          default = trim (drop 1 rest)
      in \<lparr> p_name = trim name,
           p_value = (if default = [] then None else Some default) \<rparr>)"

definition parseParameters :: "string \<Rightarrow> Parameter list" where
  "parseParameters text =
     (if trim text = [] then []
      else map parseParameter (splitParameters (0, None) [] text))"

text \<open>The text of a parameter list: up to the bracket that closes the opening one.\<close>

fun untilClose :: "nat \<times> char option \<Rightarrow> string \<Rightarrow> string" where
  "untilClose st [] = []"
| "untilClose st (c # cs) =
     (if c = CHR '')'' \<and> st = (0, None) then []
      else c # untilClose (nextDepth st c) cs)"

text \<open>
  Modelled from the spec: the declarations of a line.  A line that starts with \<open>$\<close> and
  has a colon declares a variable; \<open>@mixin\<close> and \<open>@function\<close> declare a callable with a
  parenthesised parameter list.  A name is private when it starts, after the \<open>$\<close> of a
  variable, with \<open>_\<close> or \<open>-\<close>.
\<close>

definition isPrivateName :: "string \<Rightarrow> bool" where
  "isPrivateName n =
     (case dropWhile (\<lambda>c. c = CHR ''$'') n of
        [] \<Rightarrow> False
      | c # cs \<Rightarrow> c = CHR ''_'' \<or> c = CHR ''-'')"

definition parseVariable :: "nat \<Rightarrow> string \<Rightarrow> VariableSymbol option" where
  "parseVariable position line =
     (let name = takeWhile (\<lambda>c. c \<noteq> CHR '':'' \<and> \<not> isSpace c) line;
          rest = dropWhile (\<lambda>c. c \<noteq> CHR '':'') line
      in if startsWith line ''$'' \<and> rest \<noteq> []
         then Some \<lparr> vs_name = name,
                     vs_value = trim (takeWhile (\<lambda>c. c \<noteq> CHR '';'') (drop 1 rest)),
                     vs_position = position, vs_owner = None, vs_doc = None,
                     vs_private = isPrivateName name \<rparr>
         else None)"

definition parseCallable :: "string \<Rightarrow> nat \<Rightarrow> string \<Rightarrow> CallableSymbol option" where
  "parseCallable keyword position line =
     (if startsWith line (keyword @ '' '')
      then (let rest = trimLeft (drop (length keyword) line);
                name = takeWhile (\<lambda>c. c \<noteq> CHR ''('' \<and> c \<noteq> CHR ''{'' \<and> \<not> isSpace c) rest;
                after = trimLeft (drop (length name) rest)
            in Some \<lparr> cs_name = name,
                       cs_parameters =
                         (if startsWith after ''(''
                          then parseParameters (untilClose (0, None) (drop 1 after))
                          else []),
                       cs_position = position, cs_doc = None \<rparr>)
      else None)"

text \<open>
  Modelled from the spec: the at-rule matcher.  It recognises \<open>@use\<close>, \<open>@forward\<close> and
  \<open>@import\<close> after any leading white space, with either quote; the clause after the
  quoted reference gives the alias of a use (\<open>as name\<close>, \<open>as *\<close>) and the prefix
  (\<open>as prefix-*\<close>) and the hidden names (\<open>hide a, b\<close>) of a forward.
\<close>

datatype AtRule =
    UseRule string "string option"
  | ForwardRule string "string option" "string list"
  | ImportRule string

definition quotedReference :: "string \<Rightarrow> (string \<times> string list) option" where
  "quotedReference text =
     (case trimLeft text of
        [] \<Rightarrow> None
      | q # cs \<Rightarrow>
          if isQuote q \<and> q \<in> set cs
          then Some (takeWhile (\<lambda>c. c \<noteq> q) cs,
                     filter (\<lambda>w. w \<noteq> [])
                       (splitOn CHR '' ''
                          (takeWhile (\<lambda>c. c \<noteq> CHR '';'') (drop 1 (dropWhile (\<lambda>c. c \<noteq> q) cs)))))
          else None)"

definition wordAfter :: "string \<Rightarrow> string list \<Rightarrow> string option" where
  "wordAfter keyword ws =
     (case dropWhile (\<lambda>w. w \<noteq> keyword) ws of
        k # w # rest \<Rightarrow> Some w
      | _ \<Rightarrow> None)"

definition namesAfter :: "string \<Rightarrow> string list \<Rightarrow> string list" where
  "namesAfter keyword ws =
     filter (\<lambda>w. w \<noteq> [])
       (splitOn CHR '','' (concat (drop 1 (dropWhile (\<lambda>w. w \<noteq> keyword) ws))))"

definition matchAtRule :: "string \<Rightarrow> AtRule option" where
  "matchAtRule line =
     (if startsWith line ''@use''
      then map_option (\<lambda>(url, ws). UseRule url (wordAfter ''as'' ws))
             (quotedReference (drop 4 line))
      else if startsWith line ''@forward''
      then map_option
             (\<lambda>(url, ws).
                ForwardRule url
                  (map_option (takeWhile (\<lambda>c. c \<noteq> CHR ''*'')) (wordAfter ''as'' ws))
                  (namesAfter ''hide'' ws))
             (quotedReference (drop 8 line))
      else if startsWith line ''@import''
      then map_option (\<lambda>(url, ws). ImportRule url) (quotedReference (drop 7 line))
      else None)"

text \<open>
  The default namespace of a use: the base file name of the reference, without its
  extension and without the \<open>_\<close> of a partial.
\<close>

definition defaultNamespace :: "string \<Rightarrow> string" where
  "defaultNamespace url =
     (let base = last (splitOn CHR ''/'' (stripModuleMarker url));
          stem = takeWhile (\<lambda>c. c \<noteq> CHR ''.'') base
      in if startsWith stem ''_'' then drop 1 stem else stem)"

definition linkKey :: "string \<Rightarrow> string option \<Rightarrow> string" where
  "linkKey raw target = (case target of None \<Rightarrow> raw | Some uri \<Rightarrow> uri)"

text \<open>
  Modelled from the spec: the links of a record.  Every reference is resolved against
  the path of the document that holds it, and a link whose resolved target is the
  document's own URI is dropped before it reaches the maps (the self-reference guard).
\<close>

definition addLink :: "(string \<Rightarrow> bool) \<Rightarrow> string \<Rightarrow> AtRule \<Rightarrow> DocumentRecord \<Rightarrow> DocumentRecord" where
  "addLink exists uri rule r =
     (case rule of
        UseRule url alias \<Rightarrow>
          (let target = resolve exists uri url
           in if target = Some uri then r
              else r\<lparr> r_uses :=
                     AList.update (linkKey url target)
                       \<lparr> u_raw = url, u_target = target,
                         u_namespace = (case alias of None \<Rightarrow> defaultNamespace url | Some a \<Rightarrow> a),
                         u_aliased = (alias \<noteq> None) \<rparr>
                       (r_uses r) \<rparr>)
      | ForwardRule url prefix hide \<Rightarrow>
          (let target = resolve exists uri url
           in if target = Some uri then r
              else r\<lparr> r_forwards :=
                     AList.update (linkKey url target)
                       \<lparr> f_raw = url, f_target = target, f_prefix = prefix, f_hide = hide \<rparr>
                       (r_forwards r) \<rparr>)
      | ImportRule url \<Rightarrow>
          (let target = resolve exists uri url
           in if target = Some uri then r
              else r\<lparr> r_imports := r_imports r @ [\<lparr> i_raw = url, i_target = target \<rparr>] \<rparr>))"

definition addLine :: "(string \<Rightarrow> bool) \<Rightarrow> string \<Rightarrow> DocumentRecord \<Rightarrow> nat \<times> string \<Rightarrow> DocumentRecord" where
  "addLine exists uri r numbered =
     (let position = fst numbered; line = trimLeft (snd numbered)
      in case matchAtRule line of
           Some rule \<Rightarrow> addLink exists uri rule r
         | None \<Rightarrow>
             (case parseVariable position line of
                Some v \<Rightarrow> r\<lparr> r_variables := AList.update (vs_name v) v (r_variables r) \<rparr>
              | None \<Rightarrow>
                  (case parseCallable ''@mixin'' position line of
                     Some m \<Rightarrow> r\<lparr> r_mixins := AList.update (cs_name m) m (r_mixins r) \<rparr>
                   | None \<Rightarrow>
                       (case parseCallable ''@function'' position line of
                          Some f \<Rightarrow>
                            r\<lparr> r_functions := AList.update (cs_name f) f (r_functions r) \<rparr>
                        | None \<Rightarrow> r))))"

text \<open>
  \<open>parse\<close> of the specification, for the document at \<open>uri\<close>: the lines of the text are
  read in order, each with its line number as position.
\<close>

definition parseDocument :: "(string \<Rightarrow> bool) \<Rightarrow> string \<Rightarrow> string \<Rightarrow> DocumentRecord" where
  "parseDocument exists uri text =
     foldl (addLine exists uri) (emptyRecord text) (enumerate 0 (splitOn (CHR 0x0A) text))"









text \<open>Texts of the parser's tests, and the one of the scanner's tests.\<close>

definition quoted :: "string \<Rightarrow> string" where
  "quoted s = [CHR 0x22] @ s @ [CHR 0x22]"

definition textOfLines :: "string list \<Rightarrow> string" where
  "textOfLines ls = concat (map (\<lambda>l. l @ [CHR 0x0A]) (butlast ls)) @ (if ls = [] then [] else last ls)"

definition selfText :: string where
  "selfText = textOfLines [''@use '' @ quoted ''./self'' @ '';'', ''$var: 1px;'']"


definition importText :: string where
  "importText = ''@import '' @ quoted ''variables.scss'' @ '';''"

text \<open>No link of the record has the URI as its resolved target.\<close>

definition selfFree :: "string \<Rightarrow> DocumentRecord \<Rightarrow> bool" where
  "selfFree uri r \<longleftrightarrow>
     (\<forall>(k, l) \<in> set (r_uses r). u_target l \<noteq> Some uri) \<and>
     (\<forall>(k, l) \<in> set (r_forwards r). f_target l \<noteq> Some uri) \<and>
     (\<forall>l \<in> set (r_imports r). i_target l \<noteq> Some uri)"

subsection \<open>Document Store\<close>

text \<open>
  Modelled from the spec: the Document Store (sections 2 and 6), a map from canonical URI
  to Document Record with the surface \<open>get\<close>, \<open>set\<close>, \<open>delete\<close>, \<open>clear\<close>, \<open>keys\<close>;
  \<open>set\<close> replaces the whole record of the URI.
\<close>

type_synonym Store = "(string \<times> DocumentRecord) list"

definition storeGet :: "Store \<Rightarrow> string \<Rightarrow> DocumentRecord option" where
  "storeGet store uri = map_of store uri"

definition storeSet :: "string \<Rightarrow> DocumentRecord \<Rightarrow> Store \<Rightarrow> Store" where
  "storeSet uri r store = AList.update uri r store"

definition storeDelete :: "string \<Rightarrow> Store \<Rightarrow> Store" where
  "storeDelete uri store = AList.delete uri store"

definition storeClear :: "Store \<Rightarrow> Store" where
  "storeClear store = []"

definition storeKeys :: "Store \<Rightarrow> string list" where
  "storeKeys store = map fst store"

subsection \<open>Scanner\<close>

text \<open>
  The collaborators of the scanner (section 6): the files that exist, \<open>readFile\<close> (an
  error message or the content), the accepted-extension check, and the external step
  that reduces a host file to its embedded stylesheet text (an error message or the
  text; the identity for a stylesheet).
\<close>

record ScannerEnv =
  files :: "string list"
  readFile :: "string \<Rightarrow> string + string"
  accepts :: "string \<Rightarrow> bool"
  extractRegions :: "string \<Rightarrow> string \<Rightarrow> string + string"

text \<open>
  Modelled from the spec: what the scanner does with one queued URI (section 4.3).  A
  URI that does not exist or fails the extension check is skipped silently; otherwise the
  content is read and parsed, the links resolved against the document's own path.
\<close>

datatype Loaded = Skipped | Failed string | Parsed DocumentRecord

definition loadDocument :: "ScannerEnv \<Rightarrow> string \<Rightarrow> Loaded" where
  "loadDocument env uri =
     (if uri \<notin> set (files env) \<or> \<not> accepts env uri then Skipped
      else case readFile env uri of
             Inl error \<Rightarrow> Failed error
           | Inr content \<Rightarrow>
               (case extractRegions env uri content of
                  Inl error \<Rightarrow> Failed error
                | Inr text \<Rightarrow> Parsed (parseDocument (\<lambda>p. p \<in> set (files env)) uri text)))"

text \<open>
  The state of a scan: the store, and the URIs given to \<open>readFile\<close> so far, in order.
  A queued URI carries the flag "is a seed".
\<close>

record ScanState =
  s_store :: Store
  s_reads :: "string list"

datatype Outcome = Thrown string | Continue "(string \<times> bool) list" ScanState

text \<open>
  Modelled from the spec: one step of the traversal, for the queued item taken and the
  rest of the queue.  A failure on a seed is thrown to the caller; a failure on a
  discovered file is swallowed.  A parsed document is written into the store; with
  import-following enabled (\<open>scanImportedFiles\<close>), every resolved target that is neither
  in the store nor in the queue is enqueued.
\<close>

definition scanOne ::
  "ScannerEnv \<Rightarrow> ISettings \<Rightarrow> string \<times> bool \<Rightarrow> (string \<times> bool) list \<Rightarrow> ScanState \<Rightarrow> Outcome" where
  "scanOne env settings item rest st =
     (case loadDocument env (fst item) of
        Skipped \<Rightarrow> Continue rest st
      | Failed error \<Rightarrow>
          if snd item then Thrown error
          else Continue rest (st\<lparr> s_reads := s_reads st @ [fst item] \<rparr>)
      | Parsed r \<Rightarrow>
          (let store = storeSet (fst item) r (s_store st);
               found = (if scanImportedFiles settings then remdups (linkTargets r) else []);
               new = filter (\<lambda>t. t \<notin> set (storeKeys store) \<and> t \<notin> fst ` set rest) found
           in Continue (rest @ map (\<lambda>t. (t, False)) new)
                \<lparr> s_store = store, s_reads = s_reads st @ [fst item] \<rparr>))"

text \<open>
  The measure of the traversal: the parsable files that are not in the store, then the
  queued URIs that are in the store, then the length of the queue.
\<close>

definition isParsed :: "ScannerEnv \<Rightarrow> string \<Rightarrow> bool" where
  "isParsed env uri = (case loadDocument env uri of Parsed r \<Rightarrow> True | _ \<Rightarrow> False)"

definition pendingFiles :: "ScannerEnv \<Rightarrow> ScanState \<Rightarrow> nat" where
  "pendingFiles env st =
     card {u \<in> set (files env). isParsed env u \<and> u \<notin> set (storeKeys (s_store st))}"

definition storedInQueue :: "(string \<times> bool) list \<Rightarrow> ScanState \<Rightarrow> nat" where
  "storedInQueue queue st =
     length (filter (\<lambda>item. fst item \<in> set (storeKeys (s_store st))) queue)"

lemma storeKeys_storeSet: "set (storeKeys (storeSet uri r store)) = insert uri (set (storeKeys store))"
  by (simp add: storeKeys_def storeSet_def dom_update)

lemma isParsed_files: "isParsed env u \<Longrightarrow> u \<in> set (files env)"
  by (auto simp: isParsed_def loadDocument_def split: if_splits)

lemma length_filter_remove_nth:
  "i < length q \<Longrightarrow>
     length (filter P q) =
       length (filter P (take i q @ drop (Suc i) q)) + (if P (q ! i) then 1 else 0)"
proof -
  assume "i < length q"
  then have "q = take i q @ q ! i # drop (Suc i) q" by (rule id_take_nth_drop)
  then have "filter P q = filter P (take i q @ q ! i # drop (Suc i) q)" by simp
  then show ?thesis by (simp del: append_take_drop_id)
qed

lemma scanOne_decreases:
  assumes "i < length queue"
    and "scanOne env settings (queue ! i) (take i queue @ drop (Suc i) queue) st = Continue queue' st'"
  shows "pendingFiles env st' < pendingFiles env st \<or>
         pendingFiles env st' = pendingFiles env st \<and>
           (storedInQueue queue' st' < storedInQueue queue st \<or>
            storedInQueue queue' st' = storedInQueue queue st \<and> length queue' < length queue)"
proof (cases "loadDocument env (fst (queue ! i))")
  case Skipped
  with assms(2) have eq: "queue' = take i queue @ drop (Suc i) queue" "st' = st"
    by (simp_all add: scanOne_def)
  have "storedInQueue queue' st' \<le> storedInQueue queue st"
    unfolding storedInQueue_def eq
    using length_filter_remove_nth [OF assms(1)] by simp
  moreover from assms(1) eq have "length queue' < length queue" by simp
  ultimately show ?thesis using eq by auto
next
  case (Failed e)
  with assms(2) have eq: "queue' = take i queue @ drop (Suc i) queue"
    "s_store st' = s_store st"
    by (auto simp: scanOne_def split: if_splits)
  have "storedInQueue queue' st' \<le> storedInQueue queue st"
    unfolding storedInQueue_def eq
    using length_filter_remove_nth [OF assms(1)] by simp
  moreover from assms(1) eq have "length queue' < length queue" by simp
  moreover from eq have "pendingFiles env st' = pendingFiles env st"
    by (simp add: pendingFiles_def)
  ultimately show ?thesis by auto
next
  case (Parsed r)
  let ?u = "fst (queue ! i)"
  let ?rest = "take i queue @ drop (Suc i) queue"
  from Parsed assms(2) have store: "s_store st' = storeSet ?u r (s_store st)"
    and q: "\<exists>new. queue' = ?rest @ map (\<lambda>t. (t, False)) new \<and>
              (\<forall>t \<in> set new. t \<notin> set (storeKeys (s_store st')))"
    by (auto simp: scanOne_def Let_def)
  from Parsed have pu: "isParsed env ?u" by (simp add: isParsed_def)
  show ?thesis
  proof (cases "?u \<in> set (storeKeys (s_store st))")
    case False
    let ?A = "{u \<in> set (files env). isParsed env u \<and> u \<notin> set (storeKeys (s_store st))}"
    have eq: "{u \<in> set (files env). isParsed env u \<and> u \<notin> set (storeKeys (s_store st'))} = ?A - {?u}"
      using store by (auto simp: storeKeys_storeSet)
    have "?u \<in> ?A" using False pu isParsed_files by blast
    moreover have "finite ?A" by simp
    ultimately have "card (?A - {?u}) < card ?A" by (rule_tac card_Diff1_less)
    then have "pendingFiles env st' < pendingFiles env st"
      unfolding pendingFiles_def eq .
    then show ?thesis by simp
  next
    case True
    with store have keys: "set (storeKeys (s_store st')) = set (storeKeys (s_store st))"
      by (auto simp: storeKeys_storeSet)
    then have p: "pendingFiles env st' = pendingFiles env st"
      by (simp add: pendingFiles_def)
    from q obtain new where new: "queue' = ?rest @ map (\<lambda>t. (t, False)) new"
      "\<forall>t \<in> set new. t \<notin> set (storeKeys (s_store st'))" by blast
    then have "filter (\<lambda>item. fst item \<in> set (storeKeys (s_store st')))
                 (map (\<lambda>t. (t, False)) new) = []"
      by (simp add: filter_empty_conv)
    with new keys have "storedInQueue queue' st' =
        length (filter (\<lambda>item. fst item \<in> set (storeKeys (s_store st))) ?rest)"
      by (simp add: storedInQueue_def)
    with True have "storedInQueue queue' st' < storedInQueue queue st"
      unfolding storedInQueue_def
      using length_filter_remove_nth [OF assms(1),
          of "\<lambda>item. fst item \<in> set (storeKeys (s_store st))"] by simp
    with p show ?thesis by simp
  qed
qed

text \<open>
  Modelled from the spec: the traversal.  The queue is worked off until it is empty;
  \<open>sched\<close> chooses which queued item is taken next, so that no order of arrival is
  built in.  The result is the error thrown to the caller or the final state.
\<close>

function scanQueue ::
  "ScannerEnv \<Rightarrow> ISettings \<Rightarrow> ((string \<times> bool) list \<Rightarrow> nat) \<Rightarrow> (string \<times> bool) list \<Rightarrow> ScanState
    \<Rightarrow> string + ScanState" where
  "scanQueue env settings sched queue st =
     (if queue = [] then Inr st
      else (let i = sched queue mod length queue
            in case scanOne env settings (queue ! i) (take i queue @ drop (Suc i) queue) st of
                 Thrown error \<Rightarrow> Inl error
               | Continue queue' st' \<Rightarrow> scanQueue env settings sched queue' st'))"
  by pat_completeness auto
termination
proof (relation "inv_image (less_than <*lex*> less_than <*lex*> less_than)
    (\<lambda>(env, settings, sched, queue, st).
       (pendingFiles env st, storedInQueue queue st, length queue))")
  show "wf (inv_image (less_than <*lex*> less_than <*lex*> less_than)
    (\<lambda>(env, settings, sched, queue, st).
       (pendingFiles env st, storedInQueue queue st, length queue)))"
    by (intro wf_inv_image wf_lex_prod wf_less_than)
next
  fix env :: ScannerEnv and settings :: ISettings and sched :: "(string \<times> bool) list \<Rightarrow> nat"
    and queue :: "(string \<times> bool) list" and st :: ScanState and i queue' st'
  assume "queue \<noteq> []" and i: "i = sched queue mod length queue"
    and one: "scanOne env settings (queue ! i) (take i queue @ drop (Suc i) queue) st =
      Continue queue' st'"
  then have "i < length queue" by simp
  from scanOne_decreases [OF this one]
  show "((env, settings, sched, queue', st'), (env, settings, sched, queue, st))
    \<in> inv_image (less_than <*lex*> less_than <*lex*> less_than)
        (\<lambda>(env, settings, sched, queue, st).
           (pendingFiles env st, storedInQueue queue st, length queue))"
    by auto
qed

text \<open>
  \<open>scan(seedURIs, workspaceRoot)\<close>: the queue is seeded with the seed URIs.  Links are
  resolved against the referencing document, so the workspace root plays no part.
\<close>

definition scan ::
  "ScannerEnv \<Rightarrow> ISettings \<Rightarrow> ((string \<times> bool) list \<Rightarrow> nat) \<Rightarrow> string list \<Rightarrow> Store
    \<Rightarrow> string + ScanState" where
  "scan env settings sched seedURIs store =
     scanQueue env settings sched (map (\<lambda>uri. (uri, True)) seedURIs)
       \<lparr> s_store = store, s_reads = [] \<rparr>"

text \<open>
  \<open>update(document)\<close>: the document is parsed again and its record replaced as a whole;
  the targets of its links are not scanned.
\<close>

definition update :: "ScannerEnv \<Rightarrow> string \<Rightarrow> string \<Rightarrow> Store \<Rightarrow> string + Store" where
  "update env uri content store =
     (case extractRegions env uri content of
        Inl error \<Rightarrow> Inl error
      | Inr text \<Rightarrow> Inr (storeSet uri (parseDocument (\<lambda>p. p \<in> set (files env)) uri text) store))"

text \<open>
  The workspace of the scanner's tests: \<open>index.scss\<close> imports \<open>variables.scss\<close>, which is
  empty.  In the second workspace \<open>index.scss\<close> also imports \<open>broken.scss\<close>, which exists
  and cannot be read.
\<close>

definition testEnv :: ScannerEnv where
  "testEnv =
     \<lparr> files = [''/ws/index.scss'', ''/ws/variables.scss''],
       readFile = (\<lambda>uri. if uri = ''/ws/index.scss'' then Inr importText
                         else if uri = ''/ws/variables.scss'' then Inr []
                         else Inl ''no such file''),
       accepts = (\<lambda>uri. endsWith uri ''.scss''),
       extractRegions = (\<lambda>uri content. Inr content) \<rparr>"



definition testSettings :: "bool \<Rightarrow> ISettings" where
  "testSettings follow = \<lparr> showErrors = True, scanImportedFiles = follow \<rparr>"

text \<open>
  The links between documents as the scanner sees them: an edge leads from a document
  that can be parsed to every resolved target of its links.  The reachable closure of
  the seeds is what these edges reach from a seed.
\<close>

definition linkEdges :: "ScannerEnv \<Rightarrow> (string \<times> string) set" where
  "linkEdges env = {(u, v). \<exists>r. loadDocument env u = Parsed r \<and> v \<in> set (linkTargets r)}"

definition reachable :: "ScannerEnv \<Rightarrow> string list \<Rightarrow> string set" where
  "reachable env seeds = {v. \<exists>s \<in> set seeds. (s, v) \<in> (linkEdges env)\<^sup>*}"

definition isFailed :: "ScannerEnv \<Rightarrow> string \<Rightarrow> bool" where
  "isFailed env uri = (case loadDocument env uri of Failed e \<Rightarrow> True | _ \<Rightarrow> False)"

text \<open>
  The invariants of the traversal.  With import-following enabled: what is queued or
  stored is reachable from the seeds, a stored record is the parsed document, and every
  target of a stored record, like every seed, is stored, queued or cannot be parsed.
\<close>

definition closureInv ::
  "ScannerEnv \<Rightarrow> string list \<Rightarrow> (string \<times> bool) list \<Rightarrow> ScanState \<Rightarrow> bool" where
  "closureInv env seeds queue st \<longleftrightarrow>
     fst ` set queue \<subseteq> reachable env seeds \<and>
     (\<forall>u r. map_of (s_store st) u = Some r \<longrightarrow>
        loadDocument env u = Parsed r \<and> u \<in> reachable env seeds \<and>
        (\<forall>v \<in> set (linkTargets r).
           v \<in> set (storeKeys (s_store st)) \<or> v \<in> fst ` set queue \<or> \<not> isParsed env v)) \<and>
     (\<forall>s \<in> set seeds.
        s \<in> set (storeKeys (s_store st)) \<or> s \<in> fst ` set queue \<or> \<not> isParsed env s)"

text \<open>
  No URI is stored twice, queued twice or queued while stored, and a parsable file was
  read once when it is stored and not at all when it is not.
\<close>

definition readsInv :: "ScannerEnv \<Rightarrow> (string \<times> bool) list \<Rightarrow> ScanState \<Rightarrow> bool" where
  "readsInv env queue st \<longleftrightarrow>
     distinct (storeKeys (s_store st)) \<and>
     distinct (map fst queue) \<and>
     fst ` set queue \<inter> set (storeKeys (s_store st)) = {} \<and>
     (\<forall>u. isParsed env u \<longrightarrow>
        count_list (s_reads st) u = (if u \<in> set (storeKeys (s_store st)) then 1 else 0))"


text \<open>
  With import-following disabled: only seeds are queued, stored and read, a stored
  record is the parsed document, and a parsable seed is stored or queued.
\<close>

definition seedsOnlyInv ::
  "ScannerEnv \<Rightarrow> string list \<Rightarrow> (string \<times> bool) list \<Rightarrow> ScanState \<Rightarrow> bool" where
  "seedsOnlyInv env seeds queue st \<longleftrightarrow>
     fst ` set queue \<subseteq> set seeds \<and>
     set (storeKeys (s_store st)) \<subseteq> set seeds \<and>
     set (s_reads st) \<subseteq> set seeds \<and>
     (\<forall>u r. map_of (s_store st) u = Some r \<longrightarrow> loadDocument env u = Parsed r) \<and>
     (\<forall>s \<in> set seeds.
        s \<in> set (storeKeys (s_store st)) \<or> s \<in> fst ` set queue \<or> \<not> isParsed env s)"

section \<open>Properties of variable completion\<close>

lemma completionItemFor_eq_None:
  "completionItemFor I sd cd ctx hs p v = None \<longleftrightarrow>
     \<not> truthy (v_mixin v) \<and>
     ((rePrivate I (v_name v) \<and> d_uri sd \<noteq> t_uri cd) \<or> v_name v \<in> set hs)"
  by (simp add: completionItemFor_def Let_def)

lemma completionItemFor_label:
  "completionItemFor I sd cd ctx hs p v = Some item \<Longrightarrow>
     label item =
       (if truthy (c_namespace ctx) then ''$'' @ p @ asDollarlessVariable I (v_name v)
        else v_name v)"
  by (auto simp: completionItemFor_def Let_def split: if_splits)

lemma map_filter_eq_map:
  assumes "\<And>x y. f x = Some y \<Longrightarrow> g y = h x"
  shows "map g (List.map_filter f xs) = map h (filter (\<lambda>x. f x \<noteq> None) xs)"
  using assms by (induction xs) (auto split: option.splits)

lemma labels_of_items:
  "map label (createVariableCompletionItems I sd cd ctx hs p) =
     map (\<lambda>v. if truthy (c_namespace ctx) then ''$'' @ p @ asDollarlessVariable I (v_name v)
              else v_name v)
         (filter (\<lambda>v. completionItemFor I sd cd ctx hs p v \<noteq> None) (d_variables sd))"
  unfolding createVariableCompletionItems_def
  by (rule map_filter_eq_map) (simp add: completionItemFor_label)

lemma completionItemFor_hidden_irrelevant:
  "truthy (v_mixin v) \<or> v_name v \<notin> set hs \<Longrightarrow>
     completionItemFor I sd cd ctx hs p v = completionItemFor I sd cd ctx [] p v"
  by (auto simp: completionItemFor_def Let_def)

lemma map_filter_filter:
  assumes "\<And>x. x \<in> set xs \<Longrightarrow> \<not> P x \<Longrightarrow> f x = None"
    and "\<And>x. x \<in> set xs \<Longrightarrow> P x \<Longrightarrow> f x = g x"
  shows "List.map_filter f xs = List.map_filter g (filter P xs)"
  using assms by (induction xs) (auto split: option.splits)

lemma item_in_result:
  "v \<in> set (d_variables sd) \<Longrightarrow> completionItemFor I sd cd ctx hs p v = Some item \<Longrightarrow>
     item \<in> set (createVariableCompletionItems I sd cd ctx hs p)"
  by (force simp: createVariableCompletionItems_def List.map_filter_def)

text \<open>
  C9.  A variable of the document that carries an owning mixin (\<open>variable.mixin\<close> is
  truthy) always yields a completion item, whatever its name, the two documents and the
  list of hidden symbols are; for a variable without an owning mixin an item is produced
  exactly when the name is not (private and from another document) and is not listed in
  \<open>hiddenSymbols\<close>.
\<close>

theorem mixin_argument_bypasses_filters:
  assumes "v \<in> set (d_variables sd)"
  shows "(truthy (v_mixin v) \<longrightarrow>
            (\<exists>item \<in> set (createVariableCompletionItems I sd cd ctx hs p).
               completionItemFor I sd cd ctx hs p v = Some item)) \<and>
         (\<not> truthy (v_mixin v) \<longrightarrow>
            ((\<exists>item \<in> set (createVariableCompletionItems I sd cd ctx hs p).
               completionItemFor I sd cd ctx hs p v = Some item) \<longleftrightarrow>
             \<not> (rePrivate I (v_name v) \<and> d_uri sd \<noteq> t_uri cd) \<and> v_name v \<notin> set hs))"
proof (intro conjI impI)
  assume m: "truthy (v_mixin v)"
  then have "completionItemFor I sd cd ctx hs p v \<noteq> None"
    by (simp add: completionItemFor_eq_None)
  then obtain item where "completionItemFor I sd cd ctx hs p v = Some item" by auto
  with assms show "\<exists>item \<in> set (createVariableCompletionItems I sd cd ctx hs p).
      completionItemFor I sd cd ctx hs p v = Some item"
    using item_in_result by blast
next
  assume m: "\<not> truthy (v_mixin v)"
  show "(\<exists>item \<in> set (createVariableCompletionItems I sd cd ctx hs p).
           completionItemFor I sd cd ctx hs p v = Some item) \<longleftrightarrow>
        \<not> (rePrivate I (v_name v) \<and> d_uri sd \<noteq> t_uri cd) \<and> v_name v \<notin> set hs"
  proof
    assume "\<exists>item \<in> set (createVariableCompletionItems I sd cd ctx hs p).
              completionItemFor I sd cd ctx hs p v = Some item"
    then have "completionItemFor I sd cd ctx hs p v \<noteq> None" by auto
    with m show "\<not> (rePrivate I (v_name v) \<and> d_uri sd \<noteq> t_uri cd) \<and> v_name v \<notin> set hs"
      by (simp add: completionItemFor_eq_None)
  next
    assume "\<not> (rePrivate I (v_name v) \<and> d_uri sd \<noteq> t_uri cd) \<and> v_name v \<notin> set hs"
    then have "completionItemFor I sd cd ctx hs p v \<noteq> None"
      by (simp add: completionItemFor_eq_None)
    then obtain item where "completionItemFor I sd cd ctx hs p v = Some item" by auto
    with assms show "\<exists>item \<in> set (createVariableCompletionItems I sd cd ctx hs p).
        completionItemFor I sd cd ctx hs p v = Some item"
      using item_in_result by blast
  qed
qed

text \<open>
  The private mixin argument \<open>$_a\<close> of \<open>b.scss\<close>, hidden by name, completed in
  \<open>a.scss\<close>: an item is produced.
\<close>

theorem mixin_argument_bypasses_filters_witness:
  "map label
     (createVariableCompletionItems exampleImports
        (exampleDocument ''b.scss'' [exampleVariable ''$_a'' (Some ''m'')])
        \<lparr> t_uri = ''a.scss'', t_version = 1 \<rparr> (exampleContext None) [''$_a''] []) = [''$_a'']"
  using mixin_argument_bypasses_filters
    [of "exampleVariable ''$_a'' (Some ''m'')"
        "exampleDocument ''b.scss'' [exampleVariable ''$_a'' (Some ''m'')]"
        exampleImports "\<lparr> t_uri = ''a.scss'', t_version = 1 \<rparr>" "exampleContext None"
        "[''$_a'']" "[]"]
  by (simp add: createVariableCompletionItems_def completionItemFor_def exampleImports_def
      exampleDocument_def exampleVariable_def exampleContext_def Let_def endsWith_def
      )

text \<open>
  C10.  The labels of the produced items, in order: without a (truthy) namespace in the
  context every label is the declared name of its variable, whatever the prefix is; the
  label \<open>$<prefix><dollarless name>\<close> is built only when the context has a namespace.
\<close>

theorem label_uses_prefix_only_with_namespace:
  "map label (createVariableCompletionItems I sd cd ctx hs p) =
     map (\<lambda>v. if truthy (c_namespace ctx) then ''$'' @ p @ asDollarlessVariable I (v_name v)
              else v_name v)
         (filter (\<lambda>v. truthy (v_mixin v) \<or>
                       (\<not> (rePrivate I (v_name v) \<and> d_uri sd \<noteq> t_uri cd) \<and> v_name v \<notin> set hs))
            (d_variables sd))"
proof -
  have "(\<lambda>v. completionItemFor I sd cd ctx hs p v \<noteq> None) =
        (\<lambda>v. truthy (v_mixin v) \<or>
              (\<not> (rePrivate I (v_name v) \<and> d_uri sd \<noteq> t_uri cd) \<and> v_name v \<notin> set hs))"
    by (auto simp: completionItemFor_eq_None)
  then show ?thesis
    using labels_of_items [of I sd cd ctx hs p] by simp
qed

theorem label_uses_prefix_only_with_namespace_witness:
  "map label
     (createVariableCompletionItems exampleImports
        (exampleDocument ''colors.scss'' [exampleVariable ''$c'' None])
        \<lparr> t_uri = ''a.scss'', t_version = 1 \<rparr> (exampleContext None) [] ''color-'') = [''$c'']
   \<and> map label
     (createVariableCompletionItems exampleImports
        (exampleDocument ''colors.scss'' [exampleVariable ''$c'' None])
        \<lparr> t_uri = ''a.scss'', t_version = 1 \<rparr> (exampleContext (Some ''ns'')) [] ''color-'')
       = [''$color-c'']"
  using label_uses_prefix_only_with_namespace
    [of exampleImports "exampleDocument ''colors.scss'' [exampleVariable ''$c'' None]"
        "\<lparr> t_uri = ''a.scss'', t_version = 1 \<rparr>" "exampleContext None" "[]" "''color-''"]
    label_uses_prefix_only_with_namespace
    [of exampleImports "exampleDocument ''colors.scss'' [exampleVariable ''$c'' None]"
        "\<lparr> t_uri = ''a.scss'', t_version = 1 \<rparr>" "exampleContext (Some ''ns'')" "[]" "''color-''"]
  by (simp add: exampleImports_def exampleDocument_def exampleVariable_def exampleContext_def
      startsPrivate_def dropDollar_def)

text \<open>
  C5, as the code has it.  A private variable without an owning mixin yields no item
  when the document that declares it is not the current document, and yields an item
  when it is the current document and the name is not listed in \<open>hiddenSymbols\<close>.
\<close>

theorem private_variable_visible_only_in_own_document:
  assumes "v \<in> set (d_variables sd)" and "\<not> truthy (v_mixin v)" and "rePrivate I (v_name v)"
  shows "(d_uri sd \<noteq> t_uri cd \<longrightarrow> completionItemFor I sd cd ctx hs p v = None) \<and>
         (d_uri sd = t_uri cd \<and> v_name v \<notin> set hs \<longrightarrow>
            (\<exists>item \<in> set (createVariableCompletionItems I sd cd ctx hs p).
               completionItemFor I sd cd ctx hs p v = Some item))"
proof (intro conjI impI)
  assume "d_uri sd \<noteq> t_uri cd"
  with assms show "completionItemFor I sd cd ctx hs p v = None"
    by (simp add: completionItemFor_eq_None)
next
  assume "d_uri sd = t_uri cd \<and> v_name v \<notin> set hs"
  with assms have "completionItemFor I sd cd ctx hs p v \<noteq> None"
    by (simp add: completionItemFor_eq_None)
  then obtain item where "completionItemFor I sd cd ctx hs p v = Some item" by auto
  with assms(1) show "\<exists>item \<in> set (createVariableCompletionItems I sd cd ctx hs p).
      completionItemFor I sd cd ctx hs p v = Some item"
    using item_in_result by blast
qed

text \<open>The private variable \<open>$_a\<close>: hidden from \<open>a.scss\<close> when \<open>b.scss\<close> declares it, shown
  when \<open>a.scss\<close> itself does.\<close>

theorem private_variable_visible_only_in_own_document_witness:
  "createVariableCompletionItems exampleImports
     (exampleDocument ''b.scss'' [exampleVariable ''$_a'' None])
     \<lparr> t_uri = ''a.scss'', t_version = 1 \<rparr> (exampleContext None) [] [] = []
   \<and> map label
       (createVariableCompletionItems exampleImports
          (exampleDocument ''a.scss'' [exampleVariable ''$_a'' None])
          \<lparr> t_uri = ''a.scss'', t_version = 1 \<rparr> (exampleContext None) [] []) = [''$_a'']"
  using private_variable_visible_only_in_own_document
    [of "exampleVariable ''$_a'' None" "exampleDocument ''b.scss'' [exampleVariable ''$_a'' None]"
        exampleImports "\<lparr> t_uri = ''a.scss'', t_version = 1 \<rparr>" "exampleContext None" "[]" "[]"]
    private_variable_visible_only_in_own_document
    [of "exampleVariable ''$_a'' None" "exampleDocument ''a.scss'' [exampleVariable ''$_a'' None]"
        exampleImports "\<lparr> t_uri = ''a.scss'', t_version = 1 \<rparr>" "exampleContext None" "[]" "[]"]
  by (simp add: createVariableCompletionItems_def completionItemFor_def exampleImports_def
      exampleDocument_def exampleVariable_def exampleContext_def Let_def endsWith_def
      startsPrivate_def)

text \<open>
  The claim as stated fails on two inputs: the private mixin argument \<open>$_a\<close> of
  \<open>b.scss\<close> is offered in \<open>a.scss\<close>, and the private variable \<open>$_a\<close> of \<open>a.scss\<close> is not
  offered in \<open>a.scss\<close> itself when \<open>hiddenSymbols\<close> lists it.
\<close>

theorem private_variable_counterexample:
  "startsPrivate ''$_a''
   \<and> map label
       (createVariableCompletionItems exampleImports
          (exampleDocument ''b.scss'' [exampleVariable ''$_a'' (Some ''m'')])
          \<lparr> t_uri = ''a.scss'', t_version = 1 \<rparr> (exampleContext None) [] []) = [''$_a'']
   \<and> createVariableCompletionItems exampleImports
       (exampleDocument ''a.scss'' [exampleVariable ''$_a'' None])
       \<lparr> t_uri = ''a.scss'', t_version = 1 \<rparr> (exampleContext None) [''$_a''] [] = []"
  by (simp add: createVariableCompletionItems_def completionItemFor_def exampleImports_def
      exampleDocument_def exampleVariable_def exampleContext_def Let_def endsWith_def
      startsPrivate_def)

lemma item_from_variable:
  "item \<in> set (createVariableCompletionItems I sd cd ctx hs p) \<Longrightarrow>
     \<exists>v \<in> set (d_variables sd). completionItemFor I sd cd ctx hs p v = Some item"
  unfolding createVariableCompletionItems_def
  by (induction "d_variables sd" arbitrary: sd) (auto simp: List.map_filter_def)

text \<open>
  C2, as the code has it.  A variable without an owning mixin whose name is listed in
  \<open>hiddenSymbols\<close> yields no item, whatever else holds of it and of the document; the
  items produced under the hide list are those the loop produces, with an empty hide
  list, for the variables whose declared name survives the hide list: the names are
  dropped first, the prefix goes onto the labels of the survivors; and after a namespace
  every label is \<open>$\<close>, the prefix, and the rest of the name.
\<close>

theorem hidden_names_dropped_before_prefix:
  "(\<not> truthy (v_mixin v) \<and> v_name v \<in> set hs \<longrightarrow> completionItemFor I sd cd ctx hs p v = None) \<and>
   createVariableCompletionItems I sd cd ctx hs p =
     List.map_filter (completionItemFor I sd cd ctx [] p)
       (filter (\<lambda>v. truthy (v_mixin v) \<or> v_name v \<notin> set hs) (d_variables sd)) \<and>
   (truthy (c_namespace ctx) \<longrightarrow>
      (\<forall>item \<in> set (createVariableCompletionItems I sd cd ctx hs p).
         \<exists>rest. label item = ''$'' @ p @ rest))"
proof (intro conjI)
  show "\<not> truthy (v_mixin v) \<and> v_name v \<in> set hs \<longrightarrow> completionItemFor I sd cd ctx hs p v = None"
    by (simp add: completionItemFor_eq_None)
next
  show "createVariableCompletionItems I sd cd ctx hs p =
     List.map_filter (completionItemFor I sd cd ctx [] p)
       (filter (\<lambda>v. truthy (v_mixin v) \<or> v_name v \<notin> set hs) (d_variables sd))"
    unfolding createVariableCompletionItems_def
  proof (rule map_filter_filter)
    fix x :: ScssVariable assume "\<not> (truthy (v_mixin x) \<or> v_name x \<notin> set hs)"
    then show "completionItemFor I sd cd ctx hs p x = None"
      by (simp add: completionItemFor_eq_None)
  next
    fix x :: ScssVariable assume "truthy (v_mixin x) \<or> v_name x \<notin> set hs"
    then show "completionItemFor I sd cd ctx hs p x = completionItemFor I sd cd ctx [] p x"
      by (rule completionItemFor_hidden_irrelevant)
  qed
next
  show "truthy (c_namespace ctx) \<longrightarrow>
      (\<forall>item \<in> set (createVariableCompletionItems I sd cd ctx hs p).
         \<exists>rest. label item = ''$'' @ p @ rest)"
  proof (intro impI ballI)
    fix item
    assume ns: "truthy (c_namespace ctx)"
      and "item \<in> set (createVariableCompletionItems I sd cd ctx hs p)"
    then obtain v where "completionItemFor I sd cd ctx hs p v = Some item"
      using item_from_variable by blast
    from completionItemFor_label [OF this] ns
    have "label item = ''$'' @ p @ asDollarlessVariable I (v_name v)" by simp
    then show "\<exists>rest. label item = ''$'' @ p @ rest" by blast
  qed
qed

text \<open>
  \<open>@forward "colors" as color-* hide $a, b;\<close> where \<open>colors.scss\<close> declares \<open>$a\<close> and
  \<open>$c\<close>, completed after a namespace: the one item is labelled \<open>$color-c\<close>.
\<close>

theorem hidden_names_dropped_before_prefix_witness:
  "map label
     (createVariableCompletionItems exampleImports
        (exampleDocument ''colors.scss'' [exampleVariable ''$a'' None, exampleVariable ''$c'' None])
        \<lparr> t_uri = ''a.scss'', t_version = 1 \<rparr> (exampleContext (Some ''ns'')) [''$a'', ''b'']
        ''color-'') = [''$color-c'']"
  using hidden_names_dropped_before_prefix
    [of "exampleVariable ''$a'' None" "[''$a'', ''b'']" exampleImports
        "exampleDocument ''colors.scss'' [exampleVariable ''$a'' None, exampleVariable ''$c'' None]"
        "\<lparr> t_uri = ''a.scss'', t_version = 1 \<rparr>" "exampleContext (Some ''ns'')" "''color-''"]
  by (simp add: completionItemFor_def exampleImports_def
      exampleDocument_def exampleVariable_def exampleContext_def Let_def endsWith_def
      startsPrivate_def dropDollar_def)

text \<open>
  The claim as stated fails: the surviving variable is labelled \<open>$color-c\<close> after a
  namespace and \<open>$c\<close> without one, never \<open>color-$c\<close>; and the hidden name \<open>$a\<close> is
  exposed when the variable is a mixin argument.
\<close>

theorem hidden_names_counterexample:
  "map label
     (createVariableCompletionItems exampleImports
        (exampleDocument ''colors.scss'' [exampleVariable ''$a'' None, exampleVariable ''$c'' None])
        \<lparr> t_uri = ''a.scss'', t_version = 1 \<rparr> (exampleContext (Some ''ns'')) [''$a'', ''b'']
        ''color-'') \<noteq> [''color-$c'']
   \<and> map label
     (createVariableCompletionItems exampleImports
        (exampleDocument ''colors.scss'' [exampleVariable ''$a'' None, exampleVariable ''$c'' None])
        \<lparr> t_uri = ''a.scss'', t_version = 1 \<rparr> (exampleContext None) [''$a'', ''b'']
        ''color-'') = [''$c'']
   \<and> map label
     (createVariableCompletionItems exampleImports
        (exampleDocument ''colors.scss''
           [exampleVariable ''$a'' (Some ''m''), exampleVariable ''$c'' None])
        \<lparr> t_uri = ''a.scss'', t_version = 1 \<rparr> (exampleContext (Some ''ns'')) [''$a'', ''b'']
        ''color-'') = [''$color-a'', ''$color-c'']"
  by (simp add: createVariableCompletionItems_def completionItemFor_def exampleImports_def
      exampleDocument_def exampleVariable_def exampleContext_def Let_def endsWith_def
      startsPrivate_def dropDollar_def)

section \<open>Properties of the server's handlers\<close>

lemma versionsIncrease_Cons:
  "versionsIncrease seen (e # events) =
     (case e of
        DidChange d \<Rightarrow>
          (case seen (t_uri d) of None \<Rightarrow> True | Some v \<Rightarrow> v < t_version d) \<and>
          versionsIncrease (seen(t_uri d \<mapsto> t_version d)) events
      | _ \<Rightarrow> versionsIncrease seen events)"
  by (cases e) simp_all










section \<open>Properties of the extractor\<close>

subsection \<open>Self references\<close>

lemma update_set_cases:
  "(k', v') \<in> set (AList.update k v al) \<Longrightarrow> (k', v') = (k, v) \<or> (k', v') \<in> set al"
  by (induction al) (auto split: if_splits)

lemma selfFree_empty: "selfFree uri (emptyRecord text)"
  by (simp add: selfFree_def emptyRecord_def)

lemma selfFree_addLink: "selfFree uri r \<Longrightarrow> selfFree uri (addLink exists uri rule r)"
  by (cases rule) (auto simp: selfFree_def addLink_def Let_def dest!: update_set_cases)

lemma selfFree_addLine: "selfFree uri r \<Longrightarrow> selfFree uri (addLine exists uri r nl)"
  by (auto simp: addLine_def Let_def selfFree_addLink split: option.splits)
     (simp_all add: selfFree_def)

lemma selfFree_foldl: "selfFree uri r \<Longrightarrow> selfFree uri (foldl (addLine exists uri) r ls)"
  by (induction ls arbitrary: r) (simp_all add: selfFree_addLine)

lemma selfFree_parseDocument: "selfFree uri (parseDocument exists uri text)"
  by (simp add: parseDocument_def selfFree_foldl selfFree_empty)

lemma set_map_filter: "set (List.map_filter f xs) = {y. \<exists>x \<in> set xs. f x = Some y}"
  by (induction xs) (auto split: option.splits)

lemma selfFree_linkTargets: "selfFree uri r \<Longrightarrow> uri \<notin> set (linkTargets r)"
  by (fastforce simp: selfFree_def linkTargets_def set_map_filter)

text \<open>
  C3.  Whatever the text of a document and whatever exists in the file system, no link
  of the parsed record has the document's own URI as its resolved target: not in
  \<open>uses\<close>, not in \<open>forwards\<close>, not in \<open>imports\<close>.
\<close>

theorem no_link_to_own_document:
  "(\<forall>(k, l) \<in> set (r_uses (parseDocument exists uri text)). u_target l \<noteq> Some uri) \<and>
   (\<forall>(k, l) \<in> set (r_forwards (parseDocument exists uri text)). f_target l \<noteq> Some uri) \<and>
   (\<forall>l \<in> set (r_imports (parseDocument exists uri text)). i_target l \<noteq> Some uri) \<and>
   uri \<notin> set (linkTargets (parseDocument exists uri text))"
proof -
  have s: "selfFree uri (parseDocument exists uri text)" by (rule selfFree_parseDocument)
  then have "uri \<notin> set (linkTargets (parseDocument exists uri text))"
    by (rule selfFree_linkTargets)
  with s show ?thesis by (simp add: selfFree_def)
qed

text \<open>
  \<open>self.scss\<close> with the lines \<open>@use "./self";\<close> and \<open>$var: 1px;\<close>, every file existing:
  the reference resolves to \<open>self.scss\<close>, the record has no use link and one variable.
\<close>

theorem no_link_to_own_document_witness:
  "resolve (\<lambda>p. True) ''self.scss'' (quoted ''./self'') = Some ''self.scss''
   \<and> r_uses (parseDocument (\<lambda>p. True) ''self.scss'' selfText) = []
   \<and> map fst (r_variables (parseDocument (\<lambda>p. True) ''self.scss'' selfText)) = [''$var'']
   \<and> ''self.scss'' \<notin> set (linkTargets (parseDocument (\<lambda>p. True) ''self.scss'' selfText))"
proof -
  have "resolve (\<lambda>p. True) ''self.scss'' (quoted ''./self'') = Some ''self.scss''"
    by code_simp
  moreover have "r_uses (parseDocument (\<lambda>p. True) ''self.scss'' selfText) = []"
    by code_simp
  moreover have
    "map fst (r_variables (parseDocument (\<lambda>p. True) ''self.scss'' selfText)) = [''$var'']"
    by code_simp
  ultimately show ?thesis
    using no_link_to_own_document [of "\<lambda>p. True" "''self.scss''" selfText] by blast
qed

subsection \<open>Parameter lists\<close>

lemma isSpace_blank [simp]: "isSpace (CHR '' '')"
  by (simp add: isSpace_def)

lemma trimLeft_blank [simp]: "trimLeft (CHR '' '' # s) = trimLeft s"
  by (simp add: trimLeft_def)

lemma trim_blank [simp]: "trim (CHR '' '' # s) = trim s"
  by (simp add: trim_def)

lemma trim_Nil [simp]: "trim [] = []"
  by (simp add: trim_def trimLeft_def trimRight_def)






















section \<open>Properties of the scanner\<close>

subsection \<open>Invariants of the traversal\<close>

lemma scanQueue_invariant:
  assumes "scanQueue env settings sched queue st = Inr final"
    and "I queue st"
    and "\<forall>queue st i queue' st'. I queue st \<and> i < length queue \<and>
           scanOne env settings (queue ! i) (take i queue @ drop (Suc i) queue) st =
             Continue queue' st' \<longrightarrow> I queue' st'"
  shows "I [] final"
  using assms
proof (induction env settings sched queue st rule: scanQueue.induct)
  case (1 env settings sched queue st)
  show ?case
  proof (cases "queue = []")
    case True
    with "1.prems"(1,2) show ?thesis by simp
  next
    case False
    let ?i = "sched queue mod length queue"
    from False have i: "?i < length queue" by simp
    from False "1.prems"(1) obtain queue' st' where
      one: "scanOne env settings (queue ! ?i) (take ?i queue @ drop (Suc ?i) queue) st =
              Continue queue' st'"
      and rec: "scanQueue env settings sched queue' st' = Inr final"
      by (auto simp: Let_def split: Outcome.splits)
    from "1.prems"(2,3) i one have "I queue' st'" by blast
    from "1.IH" [OF False refl one rec this "1.prems"(3)] show ?thesis .
  qed
qed



lemma remove_nth_split:
  "i < length q \<Longrightarrow> \<exists>xs ys. q = xs @ q ! i # ys \<and> take i q @ drop (Suc i) q = xs @ ys"
  using id_take_nth_drop by blast

lemma scanOne_Continue:
  assumes "scanOne env settings item rest st = Continue queue' st'"
  shows "(\<not> isParsed env (fst item) \<and> queue' = rest \<and> s_store st' = s_store st \<and>
            (s_reads st' = s_reads st \<or>
             s_reads st' = s_reads st @ [fst item] \<and> isFailed env (fst item) \<and> \<not> snd item)) \<or>
         (\<exists>r. loadDocument env (fst item) = Parsed r \<and>
            s_store st' = storeSet (fst item) r (s_store st) \<and>
            s_reads st' = s_reads st @ [fst item] \<and>
            queue' = rest @ map (\<lambda>t. (t, False))
              (filter (\<lambda>t. t \<notin> set (storeKeys (storeSet (fst item) r (s_store st))) \<and>
                           t \<notin> fst ` set rest)
                 (if scanImportedFiles settings then remdups (linkTargets r) else [])))"
  using assms
  by (cases "loadDocument env (fst item)")
     (auto simp: scanOne_def isParsed_def isFailed_def Let_def split: if_splits)



lemma keys_map_of: "u \<in> set (storeKeys store) \<longleftrightarrow> map_of store u \<noteq> None"
  by (simp add: storeKeys_def map_of_eq_None_iff)

lemma map_of_storeSet: "map_of (storeSet u r store) = (map_of store)(u \<mapsto> r)"
  by (simp add: storeSet_def update_conv')

lemma isParsed_iff: "isParsed env u \<longleftrightarrow> (\<exists>r. loadDocument env u = Parsed r)"
  by (cases "loadDocument env u") (simp_all add: isParsed_def)

lemma reachable_step:
  "u \<in> reachable env seeds \<Longrightarrow> loadDocument env u = Parsed r \<Longrightarrow> v \<in> set (linkTargets r) \<Longrightarrow>
     v \<in> reachable env seeds"
  unfolding reachable_def linkEdges_def
  by (auto intro: rtrancl_into_rtrancl)

lemma closureInv_step:
  assumes inv: "closureInv env seeds queue st" and i: "i < length queue"
    and one: "scanOne env settings (queue ! i) (take i queue @ drop (Suc i) queue) st =
      Continue queue' st'"
    and follow: "scanImportedFiles settings"
  shows "closureInv env seeds queue' st'"
proof -
  let ?item = "queue ! i" and ?rest = "take i queue @ drop (Suc i) queue"
  from remove_nth_split [OF i] obtain xs ys where
    "queue = xs @ ?item # ys" "?rest = xs @ ys" by blast
  then have q: "set queue = insert ?item (set ?rest)"
    by (metis list.simps(15) set_append Un_insert_right)
  from inv q have ur: "fst ?item \<in> reachable env seeds" by (auto simp: closureInv_def)
  from scanOne_Continue [OF one] consider
      (skip) "\<not> isParsed env (fst ?item)" "queue' = ?rest" "s_store st' = s_store st"
    | (parsed) r where "loadDocument env (fst ?item) = Parsed r"
        "s_store st' = storeSet (fst ?item) r (s_store st)"
        "queue' = ?rest @ map (\<lambda>t. (t, False))
              (filter (\<lambda>t. t \<notin> set (storeKeys (storeSet (fst ?item) r (s_store st))) \<and>
                           t \<notin> fst ` set ?rest)
                 (if scanImportedFiles settings then remdups (linkTargets r) else []))"
    by blast
  then show ?thesis
  proof cases
    case skip
    with inv q show ?thesis
      unfolding closureInv_def by (auto; metis)
  next
    case (parsed r)
    note load = parsed(1) and store = parsed(2) and queue' = parsed(3)
    have keys: "set (storeKeys (s_store st')) = insert (fst ?item) (set (storeKeys (s_store st)))"
      using store by (simp add: storeKeys_storeSet)
    have fq: "fst ` set queue' = fst ` set ?rest \<union>
        {t \<in> set (linkTargets r). t \<notin> set (storeKeys (s_store st')) \<and> t \<notin> fst ` set ?rest}"
      using queue' follow store by (auto simp: image_Un image_image)
    have a: "fst ` set queue' \<subseteq> reachable env seeds"
      using fq inv q reachable_step [OF ur load] by (auto simp: closureInv_def)
    have b: "\<forall>u r'. map_of (s_store st') u = Some r' \<longrightarrow>
        loadDocument env u = Parsed r' \<and> u \<in> reachable env seeds \<and>
        (\<forall>v \<in> set (linkTargets r').
           v \<in> set (storeKeys (s_store st')) \<or> v \<in> fst ` set queue' \<or> \<not> isParsed env v)"
    proof (intro allI impI)
      fix u r' assume m: "map_of (s_store st') u = Some r'"
      show "loadDocument env u = Parsed r' \<and> u \<in> reachable env seeds \<and>
        (\<forall>v \<in> set (linkTargets r').
           v \<in> set (storeKeys (s_store st')) \<or> v \<in> fst ` set queue' \<or> \<not> isParsed env v)"
      proof (cases "u = fst ?item")
        case True
        with m store have "r' = r" by (simp add: map_of_storeSet)
        with True load ur fq show ?thesis by auto
      next
        case False
        with m store have "map_of (s_store st) u = Some r'" by (simp add: map_of_storeSet)
        with inv have old: "loadDocument env u = Parsed r'" "u \<in> reachable env seeds"
          "\<forall>v \<in> set (linkTargets r').
             v \<in> set (storeKeys (s_store st)) \<or> v \<in> fst ` set queue \<or> \<not> isParsed env v"
          unfolding closureInv_def by blast+
        have "\<forall>v \<in> set (linkTargets r').
           v \<in> set (storeKeys (s_store st')) \<or> v \<in> fst ` set queue' \<or> \<not> isParsed env v"
          using old(3) keys fq q by auto
        with old show ?thesis by simp
      qed
    qed
    have c: "\<forall>s \<in> set seeds.
        s \<in> set (storeKeys (s_store st')) \<or> s \<in> fst ` set queue' \<or> \<not> isParsed env s"
      using inv keys fq q unfolding closureInv_def by auto
    from a b c show ?thesis unfolding closureInv_def by blast
  qed
qed

lemma seeds_reachable: "set seeds \<subseteq> reachable env seeds"
  by (auto simp: reachable_def)

lemma closureInv_initial:
  "closureInv env seeds (map (\<lambda>uri. (uri, True)) seeds) \<lparr> s_store = [], s_reads = [] \<rparr>"
  using seeds_reachable [of seeds env]
  by (auto simp: closureInv_def image_image)

lemma closureInv_final:
  assumes "closureInv env seeds [] st"
  shows "set (storeKeys (s_store st)) = {v \<in> reachable env seeds. isParsed env v}"
proof (intro equalityI subsetI)
  fix v assume "v \<in> set (storeKeys (s_store st))"
  then obtain r where "map_of (s_store st) v = Some r" by (auto simp: keys_map_of)
  with assms show "v \<in> {v \<in> reachable env seeds. isParsed env v}"
    by (auto simp: closureInv_def isParsed_iff)
next
  fix v assume "v \<in> {v \<in> reachable env seeds. isParsed env v}"
  then obtain s where s: "s \<in> set seeds" and path: "(s, v) \<in> (linkEdges env)\<^sup>*"
    and pv: "isParsed env v"
    by (auto simp: reachable_def)
  from path have "isParsed env v \<longrightarrow> v \<in> set (storeKeys (s_store st))"
  proof (induction rule: rtrancl_induct)
    case base
    from assms s show ?case by (auto simp: closureInv_def)
  next
    case (step y z)
    from step.hyps(2) obtain r where r: "loadDocument env y = Parsed r" "z \<in> set (linkTargets r)"
      by (auto simp: linkEdges_def)
    then have "isParsed env y" by (auto simp: isParsed_iff)
    with step.IH obtain r' where r': "map_of (s_store st) y = Some r'"
      by (auto simp: keys_map_of)
    with assms r have "r' = r" by (auto simp: closureInv_def)
    with assms r r' show ?case by (fastforce simp: closureInv_def)
  qed
  with pv show "v \<in> set (storeKeys (s_store st))" by simp
qed

lemma closureInv_records:
  "closureInv env seeds queue st \<Longrightarrow> storeGet (s_store st) u = Some r \<Longrightarrow>
     loadDocument env u = Parsed r"
  by (auto simp: closureInv_def storeGet_def)

lemma readsInv_initial:
  "distinct seeds \<Longrightarrow> readsInv env (map (\<lambda>uri. (uri, True)) seeds) \<lparr> s_store = [], s_reads = [] \<rparr>"
  by (simp add: readsInv_def storeKeys_def comp_def)

lemma readsInv_step:
  assumes inv: "readsInv env queue st" and i: "i < length queue"
    and one: "scanOne env settings (queue ! i) (take i queue @ drop (Suc i) queue) st =
      Continue queue' st'"
  shows "readsInv env queue' st'"
proof -
  define item where "item = queue ! i"
  define rest where "rest = take i queue @ drop (Suc i) queue"
  from remove_nth_split [OF i] obtain xs ys where
    split: "queue = xs @ item # ys" "rest = xs @ ys" unfolding item_def rest_def by blast
  from inv have "distinct (map fst (xs @ item # ys))" using split(1) by (simp add: readsInv_def)
  then have dr: "distinct (map fst rest)" and nr: "fst item \<notin> fst ` set rest"
    unfolding split(2) by auto
  from split have q: "set queue = insert item (set rest)" by auto
  from inv q have nk: "fst item \<notin> set (storeKeys (s_store st))"
    and rk: "fst ` set rest \<inter> set (storeKeys (s_store st)) = {}"
    by (auto simp: readsInv_def)
  from inv have cnt: "\<forall>u. isParsed env u \<longrightarrow>
        count_list (s_reads st) u = (if u \<in> set (storeKeys (s_store st)) then 1 else 0)"
    by (simp add: readsInv_def)
  from one have one': "scanOne env settings item rest st = Continue queue' st'"
    by (simp add: item_def rest_def)
  from scanOne_Continue [OF one'] consider
      (skip) "\<not> isParsed env (fst item)" "queue' = rest" "s_store st' = s_store st"
        "s_reads st' = s_reads st \<or> s_reads st' = s_reads st @ [fst item]"
    | (parsed) r where "loadDocument env (fst item) = Parsed r"
        "s_store st' = storeSet (fst item) r (s_store st)"
        "s_reads st' = s_reads st @ [fst item]"
        "queue' = rest @ map (\<lambda>t. (t, False))
              (filter (\<lambda>t. t \<notin> set (storeKeys (storeSet (fst item) r (s_store st))) \<and>
                           t \<notin> fst ` set rest)
                 (if scanImportedFiles settings then remdups (linkTargets r) else []))"
    by blast
  then show ?thesis
  proof cases
    case skip
    from skip(1,4) cnt have "\<forall>u. isParsed env u \<longrightarrow>
        count_list (s_reads st') u = (if u \<in> set (storeKeys (s_store st)) then 1 else 0)"
      by auto
    with skip dr rk inv show ?thesis by (simp add: readsInv_def)
  next
    case (parsed r)
    define new where "new = filter (\<lambda>t. t \<notin> set (storeKeys (storeSet (fst item) r (s_store st))) \<and>
                           t \<notin> fst ` set rest)
                 (if scanImportedFiles settings then remdups (linkTargets r) else [])"
    have keys: "set (storeKeys (s_store st')) = insert (fst item) (set (storeKeys (s_store st)))"
      using parsed(2) by (simp add: storeKeys_storeSet)
    have mq: "map fst queue' = map fst rest @ new"
      using parsed(4) by (simp add: comp_def new_def)
    have dn: "distinct new" by (simp add: new_def)
    have nn: "set new \<inter> fst ` set rest = {}"
      and nk': "set new \<inter> set (storeKeys (s_store st')) = {}"
      using parsed(2) by (auto simp: new_def)
    have a: "distinct (map fst queue')"
      unfolding mq using dr dn nn by auto
    have "fst ` set queue' = set (map fst queue')" by simp
    also have "\<dots> = fst ` set rest \<union> set new" unfolding mq by simp
    finally have b: "fst ` set queue' \<inter> set (storeKeys (s_store st')) = {}"
      using keys rk nr nk' by auto
    have c: "\<forall>u. isParsed env u \<longrightarrow>
        count_list (s_reads st') u = (if u \<in> set (storeKeys (s_store st')) then 1 else 0)"
      using cnt nk keys parsed(1,3) by (auto simp: isParsed_iff)
    have d: "distinct (storeKeys (s_store st'))"
      using inv parsed(2) by (simp add: readsInv_def storeKeys_def storeSet_def distinct_update)
    from a b c d show ?thesis by (simp add: readsInv_def)
  qed
qed

lemma readsInv_final:
  "readsInv env [] st \<Longrightarrow> u \<in> set (storeKeys (s_store st)) \<Longrightarrow> isParsed env u \<Longrightarrow>
     count_list (s_reads st) u = 1"
  by (simp add: readsInv_def)







lemma scan_closure:
  assumes "scanImportedFiles settings" and "scan env settings sched seeds [] = Inr final"
  shows "set (storeKeys (s_store final)) = {v \<in> reachable env seeds. isParsed env v}"
    and "storeGet (s_store final) u = Some r \<Longrightarrow> loadDocument env u = Parsed r"
proof -
  have "closureInv env seeds [] final"
  proof (rule scanQueue_invariant [where I = "closureInv env seeds"])
    from assms(2) show "scanQueue env settings sched (map (\<lambda>uri. (uri, True)) seeds)
        \<lparr> s_store = [], s_reads = [] \<rparr> = Inr final" by (simp add: scan_def)
    show "closureInv env seeds (map (\<lambda>uri. (uri, True)) seeds) \<lparr> s_store = [], s_reads = [] \<rparr>"
      by (rule closureInv_initial)
    show "\<forall>queue st i queue' st'. closureInv env seeds queue st \<and> i < length queue \<and>
         scanOne env settings (queue ! i) (take i queue @ drop (Suc i) queue) st =
           Continue queue' st' \<longrightarrow> closureInv env seeds queue' st'"
      using closureInv_step assms(1) by blast
  qed
  then show "set (storeKeys (s_store final)) = {v \<in> reachable env seeds. isParsed env v}"
    and "storeGet (s_store final) u = Some r \<Longrightarrow> loadDocument env u = Parsed r"
    by (simp_all add: closureInv_final closureInv_records)
qed

lemma scan_reads:
  assumes "distinct seeds" and "scan env settings sched seeds [] = Inr final"
  shows "readsInv env [] final"
proof (rule scanQueue_invariant [where I = "readsInv env"])
  from assms(2) show "scanQueue env settings sched (map (\<lambda>uri. (uri, True)) seeds)
      \<lparr> s_store = [], s_reads = [] \<rparr> = Inr final" by (simp add: scan_def)
  from assms(1) show "readsInv env (map (\<lambda>uri. (uri, True)) seeds) \<lparr> s_store = [], s_reads = [] \<rparr>"
    by (rule readsInv_initial)
  show "\<forall>queue st i queue' st'. readsInv env queue st \<and> i < length queue \<and>
       scanOne env settings (queue ! i) (take i queue @ drop (Suc i) queue) st =
         Continue queue' st' \<longrightarrow> readsInv env queue' st'"
    using readsInv_step by blast
qed

lemma seedsOnlyInv_initial:
  "seedsOnlyInv env seeds (map (\<lambda>uri. (uri, True)) seeds) \<lparr> s_store = [], s_reads = [] \<rparr>"
  by (auto simp: seedsOnlyInv_def storeKeys_def image_image)

lemma seedsOnlyInv_step:
  assumes inv: "seedsOnlyInv env seeds queue st" and i: "i < length queue"
    and one: "scanOne env settings (queue ! i) (take i queue @ drop (Suc i) queue) st =
      Continue queue' st'"
    and off: "\<not> scanImportedFiles settings"
  shows "seedsOnlyInv env seeds queue' st'"
proof -
  define item where "item = queue ! i"
  define rest where "rest = take i queue @ drop (Suc i) queue"
  from remove_nth_split [OF i] obtain xs ys where
    split: "queue = xs @ item # ys" "rest = xs @ ys" unfolding item_def rest_def by blast
  then have q: "set queue = insert item (set rest)" by auto
  from inv q have iseed: "fst item \<in> set seeds" and rs: "fst ` set rest \<subseteq> set seeds"
    by (auto simp: seedsOnlyInv_def)
  from one have one': "scanOne env settings item rest st = Continue queue' st'"
    by (simp add: item_def rest_def)
  from scanOne_Continue [OF one'] off consider
      (skip) "\<not> isParsed env (fst item)" "queue' = rest" "s_store st' = s_store st"
        "s_reads st' = s_reads st \<or> s_reads st' = s_reads st @ [fst item]"
    | (parsed) r where "loadDocument env (fst item) = Parsed r"
        "s_store st' = storeSet (fst item) r (s_store st)"
        "s_reads st' = s_reads st @ [fst item]"
        "queue' = rest"
    by auto
  then show ?thesis
  proof cases
    case skip
    from skip(4) inv iseed have "set (s_reads st') \<subseteq> set seeds"
      by (auto simp: seedsOnlyInv_def)
    moreover from inv q skip(1) have "\<forall>s \<in> set seeds.
        s \<in> set (storeKeys (s_store st)) \<or> s \<in> fst ` set rest \<or> \<not> isParsed env s"
      by (auto simp: seedsOnlyInv_def)
    ultimately show ?thesis using inv rs skip(2,3) by (simp add: seedsOnlyInv_def)
  next
    case (parsed r)
    have keys: "set (storeKeys (s_store st')) = insert (fst item) (set (storeKeys (s_store st)))"
      using parsed(2) by (simp add: storeKeys_storeSet)
    have a: "set (storeKeys (s_store st')) \<subseteq> set seeds"
      using keys inv iseed by (auto simp: seedsOnlyInv_def)
    have b: "set (s_reads st') \<subseteq> set seeds"
      using parsed(3) inv iseed by (auto simp: seedsOnlyInv_def)
    have c: "\<forall>u r'. map_of (s_store st') u = Some r' \<longrightarrow> loadDocument env u = Parsed r'"
      using inv parsed(1,2) by (auto simp: seedsOnlyInv_def map_of_storeSet split: if_splits)
    have d: "\<forall>s \<in> set seeds.
        s \<in> set (storeKeys (s_store st')) \<or> s \<in> fst ` set queue' \<or> \<not> isParsed env s"
      using inv q keys parsed(4) by (auto simp: seedsOnlyInv_def)
    from a b c d rs parsed(4) show ?thesis by (simp add: seedsOnlyInv_def)
  qed
qed

lemma seedsOnlyInv_final:
  assumes "seedsOnlyInv env seeds [] st"
  shows "set (storeKeys (s_store st)) = {s \<in> set seeds. isParsed env s}"
proof (intro equalityI subsetI)
  fix v assume v: "v \<in> set (storeKeys (s_store st))"
  then obtain r where "map_of (s_store st) v = Some r" by (auto simp: keys_map_of)
  with assms v show "v \<in> {s \<in> set seeds. isParsed env s}"
    by (auto simp: seedsOnlyInv_def isParsed_iff)
next
  fix v assume "v \<in> {s \<in> set seeds. isParsed env s}"
  with assms show "v \<in> set (storeKeys (s_store st))" by (auto simp: seedsOnlyInv_def)
qed

lemma scan_seeds_only:
  assumes "\<not> scanImportedFiles settings" and "scan env settings sched seeds [] = Inr final"
  shows "seedsOnlyInv env seeds [] final"
proof (rule scanQueue_invariant [where I = "seedsOnlyInv env seeds"])
  from assms(2) show "scanQueue env settings sched (map (\<lambda>uri. (uri, True)) seeds)
      \<lparr> s_store = [], s_reads = [] \<rparr> = Inr final" by (simp add: scan_def)
  show "seedsOnlyInv env seeds (map (\<lambda>uri. (uri, True)) seeds) \<lparr> s_store = [], s_reads = [] \<rparr>"
    by (rule seedsOnlyInv_initial)
  show "\<forall>queue st i queue' st'. seedsOnlyInv env seeds queue st \<and> i < length queue \<and>
       scanOne env settings (queue ! i) (take i queue @ drop (Suc i) queue) st =
         Continue queue' st' \<longrightarrow> seedsOnlyInv env seeds queue' st'"
    using seedsOnlyInv_step assms(1) by blast
qed




subsection \<open>What a scan leaves in the store\<close>

text \<open>
  C1.  With import-following enabled, a scan of distinct seeds into an empty store that
  returns leaves in the store exactly the URIs that are reachable from the seeds through
  the links of parsed documents and that can themselves be parsed, each once, each
  with the record of its parse, and each read exactly once; the keys do not depend on
  the order in which the queue is worked off.
\<close>

theorem scan_stores_reachable_closure:
  assumes "scanImportedFiles settings" and "distinct seeds"
    and "scan env settings sched seeds [] = Inr final"
  shows "set (storeKeys (s_store final)) = {v \<in> reachable env seeds. isParsed env v}
       \<and> distinct (storeKeys (s_store final))
       \<and> (\<forall>u \<in> set (storeKeys (s_store final)). count_list (s_reads final) u = 1)
       \<and> (\<forall>u r. storeGet (s_store final) u = Some r \<longrightarrow> loadDocument env u = Parsed r)
       \<and> (\<forall>sched' final'. scan env settings sched' seeds [] = Inr final' \<longrightarrow>
            set (storeKeys (s_store final')) = set (storeKeys (s_store final)))"
proof -
  have keys: "set (storeKeys (s_store final)) = {v \<in> reachable env seeds. isParsed env v}"
    using scan_closure(1) [OF assms(1,3)] .
  have reads: "readsInv env [] final" using scan_reads [OF assms(2,3)] .
  have "\<forall>u \<in> set (storeKeys (s_store final)). count_list (s_reads final) u = 1"
    using keys reads readsInv_final by blast
  moreover have "distinct (storeKeys (s_store final))"
    using reads by (simp add: readsInv_def)
  moreover have "\<forall>u r. storeGet (s_store final) u = Some r \<longrightarrow> loadDocument env u = Parsed r"
    using scan_closure(2) [OF assms(1,3)] by blast
  moreover have "\<forall>sched' final'. scan env settings sched' seeds [] = Inr final' \<longrightarrow>
            set (storeKeys (s_store final')) = set (storeKeys (s_store final))"
    using keys scan_closure(1) [OF assms(1)] by blast
  ultimately show ?thesis using keys by blast
qed

lemma testEnv_scan:
  "map_sum id (\<lambda>st. (storeKeys (s_store st), s_reads st))
     (scan testEnv (testSettings True) (\<lambda>q. 0) [''/ws/index.scss''] []) =
   Inr ([''/ws/index.scss'', ''/ws/variables.scss''],
        [''/ws/index.scss'', ''/ws/variables.scss''])"
  by code_simp

theorem scan_stores_reachable_closure_witness:
  "map_sum id (\<lambda>st. (storeKeys (s_store st), s_reads st))
     (scan testEnv (testSettings True) (\<lambda>q. 0) [''/ws/index.scss''] []) =
   Inr ([''/ws/index.scss'', ''/ws/variables.scss''],
        [''/ws/index.scss'', ''/ws/variables.scss''])
   \<and> {v \<in> reachable testEnv [''/ws/index.scss'']. isParsed testEnv v} =
       {''/ws/index.scss'', ''/ws/variables.scss''}"
proof -
  obtain final where f: "scan testEnv (testSettings True) (\<lambda>q. 0) [''/ws/index.scss''] [] = Inr final"
    and k: "storeKeys (s_store final) = [''/ws/index.scss'', ''/ws/variables.scss'']"
    using testEnv_scan
    by (cases "scan testEnv (testSettings True) (\<lambda>q. 0) [''/ws/index.scss''] []") auto
  have "scanImportedFiles (testSettings True)" by (simp add: testSettings_def)
  from scan_stores_reachable_closure [OF this _ f] k
  have "{v \<in> reachable testEnv [''/ws/index.scss'']. isParsed testEnv v} =
       {''/ws/index.scss'', ''/ws/variables.scss''}" by auto
  with testEnv_scan show ?thesis by blast
qed

text \<open>
  C4.  With import-following disabled, a scan into an empty store that returns leaves in
  the store exactly the seeds that can be parsed; each stored record is the record of
  the parse, with its links and their resolved targets; and only seeds were read.
\<close>

theorem scan_without_following_keeps_seeds:
  assumes "\<not> scanImportedFiles settings" and "scan env settings sched seeds [] = Inr final"
  shows "set (storeKeys (s_store final)) = {s \<in> set seeds. isParsed env s}
       \<and> set (s_reads final) \<subseteq> set seeds
       \<and> (\<forall>u r. storeGet (s_store final) u = Some r \<longrightarrow> loadDocument env u = Parsed r)"
proof -
  have inv: "seedsOnlyInv env seeds [] final" using scan_seeds_only [OF assms] .
  then have "set (storeKeys (s_store final)) = {s \<in> set seeds. isParsed env s}"
    by (rule seedsOnlyInv_final)
  with inv show ?thesis by (simp add: seedsOnlyInv_def storeGet_def)
qed

lemma testEnv_scan_off:
  "map_sum id (\<lambda>st. (storeKeys (s_store st), s_reads st,
                      map (\<lambda>(u, r). map i_target (r_imports r)) (s_store st)))
     (scan testEnv (testSettings False) (\<lambda>q. 0) [''/ws/index.scss''] []) =
   Inr ([''/ws/index.scss''], [''/ws/index.scss''], [[Some ''/ws/variables.scss'']])"
  by code_simp

theorem scan_without_following_keeps_seeds_witness:
  "map_sum id (\<lambda>st. (storeKeys (s_store st), s_reads st,
                      map (\<lambda>(u, r). map i_target (r_imports r)) (s_store st)))
     (scan testEnv (testSettings False) (\<lambda>q. 0) [''/ws/index.scss''] []) =
   Inr ([''/ws/index.scss''], [''/ws/index.scss''], [[Some ''/ws/variables.scss'']])
   \<and> ''/ws/variables.scss'' \<in> set (files testEnv)
   \<and> {s \<in> set [''/ws/index.scss'']. isParsed testEnv s} = {''/ws/index.scss''}"
proof -
  obtain final where f: "scan testEnv (testSettings False) (\<lambda>q. 0) [''/ws/index.scss''] [] = Inr final"
    and k: "storeKeys (s_store final) = [''/ws/index.scss'']"
    using testEnv_scan_off
    by (cases "scan testEnv (testSettings False) (\<lambda>q. 0) [''/ws/index.scss''] []") auto
  have "\<not> scanImportedFiles (testSettings False)" by (simp add: testSettings_def)
  from scan_without_following_keeps_seeds [OF this f] k
  have "{s \<in> set [''/ws/index.scss'']. isParsed testEnv s} = {''/ws/index.scss''}" by auto
  moreover have "''/ws/variables.scss'' \<in> set (files testEnv)" by (simp add: testEnv_def)
  ultimately show ?thesis using testEnv_scan_off by blast
qed




end
